theory Spec2Isabelle
  imports Main
begin

section \<open>Python values\<close>

text \<open>
  A Python \<open>str\<close> is a list of characters, one \<^typ>\<open>char\<close> per code point; the
  model covers the strings whose code points are below 256. A Python \<open>int\<close> is an
  \<^typ>\<open>int\<close>. \<open>item.get(key)\<close> of a field that holds text is a
  \<^typ>\<open>string option\<close> (\<open>None\<close> when the key is missing or holds \<open>None\<close>); a
  field that the pipeline accepts as a number, as text or not at all is a \<open>pyval\<close>.
\<close>

datatype error = AssertionError | RuntimeError | ValueError | OverflowError | IntegrityError

datatype pyval = PNone | PInt int | PStr string

definition truthy :: "pyval \<Rightarrow> bool" where
  "truthy v = (case v of PNone \<Rightarrow> False | PInt i \<Rightarrow> i \<noteq> 0 | PStr s \<Rightarrow> s \<noteq> [])"

definition truthy_str :: "string option \<Rightarrow> bool" where
  "truthy_str v = (case v of None \<Rightarrow> False | Some s \<Rightarrow> s \<noteq> [])"

text \<open>\<open>value or datetime.utcnow().isoformat()\<close>, the clock's reading given.\<close>

definition or_now :: "string option \<Rightarrow> string \<Rightarrow> string" where
  "or_now v reading = (case v of None \<Rightarrow> reading | Some s \<Rightarrow> if s \<noteq> [] then s else reading)"

text \<open>
  \<open>str.isdigit\<close>: below code point 256 the digit characters are \<open>0\<close> to \<open>9\<close> and
  the superscripts two, three and one (178, 179, 185). \<open>int\<close> accepts only the
  decimal ones and raises \<open>ValueError\<close> on a superscript; it also raises
  \<open>ValueError\<close> for a string of more than 4300 digits, leading zeros counted (the
  default of \<open>sys.int_max_str_digits\<close>). \<open>py_int\<close> is \<open>int(s)\<close> for the strings the
  source passes to it: those for which \<open>isdigit\<close> holds, or that the pattern \<open>\d+\<close>
  matched.
\<close>

definition is_decimal :: "char \<Rightarrow> bool" where
  "is_decimal c = (48 \<le> (of_char c :: nat) \<and> (of_char c :: nat) \<le> 57)"

definition is_digit_char :: "char \<Rightarrow> bool" where
  "is_digit_char c =
     (is_decimal c \<or> (of_char c :: nat) = 178 \<or> (of_char c :: nat) = 179 \<or> (of_char c :: nat) = 185)"

definition py_isdigit :: "string \<Rightarrow> bool" where
  "py_isdigit s = (s \<noteq> [] \<and> list_all is_digit_char s)"

definition digit_val :: "char \<Rightarrow> int" where
  "digit_val c = int (of_char c) - 48"

definition decimal_value :: "string \<Rightarrow> int" where
  "decimal_value s = foldl (\<lambda>n c. 10 * n + digit_val c) 0 s"

definition py_int :: "string \<Rightarrow> error + int" where
  "py_int s =
     (if s \<noteq> [] \<and> list_all is_decimal s \<and> length s \<le> 4300 then Inr (decimal_value s)
      else Inl ValueError)"

text \<open>\<open>json.dumps(list(urls), ensure_ascii=False)\<close> for a list of strings.\<close>

definition hex_digit :: "nat \<Rightarrow> char" where
  "hex_digit n = ''0123456789abcdef'' ! (n mod 16)"

definition json_escape :: "char \<Rightarrow> string" where
  "json_escape c =
     (if c = CHR 0x22 then [CHR 0x5C, CHR 0x22]
      else if c = CHR 0x5C then [CHR 0x5C, CHR 0x5C]
      else if c = CHR 0x0A then [CHR 0x5C, CHR ''n'']
      else if c = CHR 0x0D then [CHR 0x5C, CHR ''r'']
      else if c = CHR 0x09 then [CHR 0x5C, CHR ''t'']
      else if c = CHR 0x08 then [CHR 0x5C, CHR ''b'']
      else if c = CHR 0x0C then [CHR 0x5C, CHR ''f'']
      else if (of_char c :: nat) < 32
        then [CHR 0x5C, CHR ''u'', CHR ''0'', CHR ''0'',
              hex_digit ((of_char c :: nat) div 16), hex_digit (of_char c)]
      else [c])"

definition json_string :: "string \<Rightarrow> string" where
  "json_string s = [CHR 0x22] @ concat (map json_escape s) @ [CHR 0x22]"

fun join_with :: "string \<Rightarrow> string list \<Rightarrow> string" where
  "join_with sep [] = []"
| "join_with sep [x] = x"
| "join_with sep (x # y # ys) = x @ sep @ join_with sep (y # ys)"

definition json_dumps :: "string list \<Rightarrow> string" where
  "json_dumps xs = ''['' @ join_with '', '' (map json_string xs) @ '']''"

section \<open>The entities the spiders emit\<close>

record forum_item =
  fi_spider_name :: "string option"
  fi_title :: "string option"
  fi_url :: "string option"
  fi_created_at :: "string option"
  fi_updated_at :: "string option"

record section_item =
  si_forum_id :: pyval
  si_title :: "string option"
  si_url :: "string option"
  si_created_at :: "string option"
  si_updated_at :: "string option"

record thread_item =
  ti_section_id :: pyval
  ti_section_url :: "string option"
  ti_section_title :: "string option"
  ti_title :: "string option"
  ti_url :: "string option"
  ti_author :: "string option"
  ti_replies :: "int option"
  ti_views :: "int option"
  ti_last_post_date :: "string option"
  ti_last_post_author :: "string option"
  ti_created_at :: "string option"
  ti_updated_at :: "string option"

record user_item =
  ui_username :: "string option"
  ui_join_date :: "string option"
  ui_posts_count :: "int option"
  ui_religion :: "string option"
  ui_gender :: "string option"
  ui_localization :: "string option"
  ui_created_at :: "string option"
  ui_updated_at :: "string option"

record post_item =
  pi_thread_id :: pyval
  pi_user_id :: pyval
  pi_username :: "string option"
  pi_post_number :: "int option"
  pi_content :: "string option"
  pi_content_urls :: "string list option"
  pi_post_date :: "string option"
  pi_url :: "string option"
  pi_created_at :: "string option"
  pi_updated_at :: "string option"

datatype item =
    Forum forum_item
  | Section section_item
  | Thread thread_item
  | User user_item
  | Post post_item
  | Other

section \<open>The SQLite store\<close>

text \<open>
  The five tables of \<open>_create_tables\<close>, each a list of rows in rowid order. A column
  declared \<open>INTEGER\<close> that receives a reference of the pipeline holds an \<open>sqlval\<close>:
  \<open>NULL\<close>, an integer, or text that the column's affinity left as text.
\<close>

datatype sqlval = Null | IntV int | TextV string

record forum_row =
  f_id :: int
  f_spider_name :: string
  f_title :: "string option"
  f_created_at :: string
  f_updated_at :: string

record section_row =
  s_id :: int
  s_forum_id :: "int option"
  s_title :: "string option"
  s_url :: "string option"
  s_created_at :: string
  s_updated_at :: string

record thread_row =
  t_id :: int
  t_section_id :: sqlval
  t_title :: "string option"
  t_url :: "string option"
  t_author :: "string option"
  t_replies :: "int option"
  t_views :: "int option"
  t_last_post_date :: "string option"
  t_last_post_author :: "string option"
  t_created_at :: string
  t_updated_at :: string

record user_row =
  u_id :: int
  u_username :: "string option"
  u_join_date :: "string option"
  u_posts_count :: "int option"
  u_religion :: "string option"
  u_gender :: "string option"
  u_localization :: "string option"
  u_created_at :: string
  u_updated_at :: string

record post_row =
  p_id :: int
  p_thread_id :: sqlval
  p_user_id :: sqlval
  p_post_number :: "int option"
  p_content :: "string option"
  p_content_urls :: "string option"
  p_post_date :: "string option"
  p_url :: "string option"
  p_username :: "string option"
  p_created_at :: string
  p_updated_at :: string

text \<open>
  The pipeline object with its connection: \<open>connected\<close> says that \<open>self.connection\<close>
  is not \<open>None\<close>; the tables and the \<open>sqlite_sequence\<close> counters of the
  \<open>AUTOINCREMENT\<close> keys are the database; \<open>last_insert_rowid\<close> is the
  connection's, which \<open>cursor.lastrowid\<close> reads after an \<open>INSERT\<close> statement
  whether or not the statement stored a row; the five dictionaries are the caches.
  The tables are what the connection sees: the rows a failed call left in the open
  transaction are there like the committed ones, as they are for the next call.
\<close>

record pipeline =
  connected :: bool
  forums :: "forum_row list"
  sections :: "section_row list"
  threads :: "thread_row list"
  users :: "user_row list"
  posts :: "post_row list"
  seq_forums :: int
  seq_sections :: int
  seq_threads :: int
  seq_users :: int
  seq_posts :: int
  last_insert_rowid :: int
  forum_url_to_id :: "string \<rightharpoonup> int"
  forum_name_to_id :: "string \<rightharpoonup> int"
  section_url_to_id :: "string \<rightharpoonup> int"
  thread_url_to_id :: "string \<rightharpoonup> int"
  user_name_to_id :: "string \<rightharpoonup> int"

datatype outcome = Done pipeline | Raised error pipeline

definition final :: "outcome \<Rightarrow> pipeline" where
  "final r = (case r of Done st \<Rightarrow> st | Raised e st \<Rightarrow> st)"

definition new_pipeline :: pipeline where
  "new_pipeline =
     \<lparr>connected = True, forums = [], sections = [], threads = [], users = [], posts = [],
      seq_forums = 0, seq_sections = 0, seq_threads = 0, seq_users = 0, seq_posts = 0,
      last_insert_rowid = 0,
      forum_url_to_id = Map.empty, forum_name_to_id = Map.empty,
      section_url_to_id = Map.empty, thread_url_to_id = Map.empty,
      user_name_to_id = Map.empty\<rparr>"

text \<open>
  A new pipeline object opened on the database an earlier run left: the tables and
  their counters stay, the caches start empty and the connection is new.
\<close>

definition reopen :: "pipeline \<Rightarrow> pipeline" where
  "reopen st =
     st\<lparr>connected := True, last_insert_rowid := 0,
        forum_url_to_id := Map.empty, forum_name_to_id := Map.empty,
        section_url_to_id := Map.empty, thread_url_to_id := Map.empty,
        user_name_to_id := Map.empty\<rparr>"

text \<open>
  \<open>AUTOINCREMENT\<close>: the rowid of an \<open>INSERT\<close> is one more than the largest rowid
  the table ever held. SQLite takes it, and records it in \<open>sqlite_sequence\<close>, before
  it looks at the row's constraints, so a row that \<open>OR IGNORE\<close> drops uses a rowid
  up all the same; a statement that fails is undone as a whole.
\<close>

definition next_rowid :: "int \<Rightarrow> int list \<Rightarrow> int" where
  "next_rowid seq ids = fold max ids seq + 1"

text \<open>
  The parameters of a statement are bound as 64-bit integers: a larger \<open>int\<close> raises
  \<open>OverflowError\<close> before the statement runs. The check is made of the integers an
  entity supplies; a rowid read back from the store or from a cache fits as it is.
\<close>

definition fits64 :: "int \<Rightarrow> bool" where
  "fits64 i = (- (2 ^ 63) \<le> i \<and> i < 2 ^ 63)"

definition fits64_opt :: "int option \<Rightarrow> bool" where
  "fits64_opt v = (case v of None \<Rightarrow> True | Some i \<Rightarrow> fits64 i)"

definition bindable :: "pyval \<Rightarrow> bool" where
  "bindable v = (case v of PInt i \<Rightarrow> fits64 i | _ \<Rightarrow> True)"

text \<open>
  A reference bound to an \<open>INTEGER\<close> column. \<open>aff\<close> is the column affinity of
  SQLite applied to text: it turns text that reads as a number into that number and
  leaves other text as it is. It is a parameter of the model.
\<close>

definition bind :: "(string \<Rightarrow> sqlval) \<Rightarrow> pyval \<Rightarrow> sqlval" where
  "bind aff v = (case v of PNone \<Rightarrow> Null | PInt i \<Rightarrow> IntV i | PStr s \<Rightarrow> aff s)"

text \<open>\<open>UNIQUE\<close> on a text column: \<open>NULL\<close> conflicts with nothing.\<close>

definition unique_conflict :: "('r \<Rightarrow> string option) \<Rightarrow> string option \<Rightarrow> 'r list \<Rightarrow> bool" where
  "unique_conflict col v rows =
     (case v of None \<Rightarrow> False | Some u \<Rightarrow> list_ex (\<lambda>r. col r = Some u) rows)"

text \<open>\<open>SELECT id FROM table WHERE col=?\<close> followed by \<open>fetchone\<close>.\<close>

definition select_id :: "('r \<Rightarrow> int) \<Rightarrow> ('r \<Rightarrow> string option) \<Rightarrow> string option \<Rightarrow> 'r list \<Rightarrow> int option" where
  "select_id idc col v rows =
     (case v of None \<Rightarrow> None | Some u \<Rightarrow> map_option idc (find (\<lambda>r. col r = Some u) rows))"

text \<open>\<open>FOREIGN KEY (section_id) REFERENCES sections (id)\<close>, with foreign keys switched on.\<close>

definition fk_ok :: "sqlval \<Rightarrow> section_row list \<Rightarrow> bool" where
  "fk_ok v rows = (case v of Null \<Rightarrow> True | IntV i \<Rightarrow> list_ex (\<lambda>r. s_id r = i) rows | TextV s \<Rightarrow> False)"

text \<open>\<open>UNIQUE (thread_id, post_number)\<close>: a pair with a \<open>NULL\<close> conflicts with nothing.\<close>

definition post_conflict :: "sqlval \<Rightarrow> int option \<Rightarrow> post_row \<Rightarrow> bool" where
  "post_conflict tv pn q = (tv \<noteq> Null \<and> pn \<noteq> None \<and> p_thread_id q = tv \<and> p_post_number q = pn)"

section \<open>The entity reconciler: \<open>SQLitePipeline\<close>\<close>

text \<open>
  Each \<open>_save_\<close> method takes \<open>now\<close>, the readings of \<open>datetime.utcnow().isoformat()\<close>
  at the places of the method that call it, numbered in the order of the text.
\<close>

definition save_forum :: "(nat \<Rightarrow> string) \<Rightarrow> forum_item \<Rightarrow> pipeline \<Rightarrow> outcome" where
  "save_forum now item st =
     (if \<not> connected st then Raised AssertionError st
      else case fi_spider_name item of
        None \<Rightarrow> Raised IntegrityError st
      | Some name \<Rightarrow>
          let forum_id = next_rowid (seq_forums st) (map f_id (forums st));
              row = \<lparr>f_id = forum_id, f_spider_name = name, f_title = fi_title item,
                     f_created_at = or_now (fi_created_at item) (now 0),
                     f_updated_at = or_now (fi_updated_at item) (now 1)\<rparr>;
              st1 = st\<lparr>forums := forums st @ [row], seq_forums := forum_id,
                       last_insert_rowid := forum_id\<rparr>;
              st2 = (if name \<noteq> []
                     then st1\<lparr>forum_name_to_id := (forum_name_to_id st1)(name \<mapsto> forum_id)\<rparr>
                     else st1)
          in Done (case fi_url item of
                     None \<Rightarrow> st2
                   | Some u \<Rightarrow>
                       if u \<noteq> []
                       then st2\<lparr>forum_url_to_id := (forum_url_to_id st2)(u \<mapsto> forum_id)\<rparr>
                       else st2))"

definition resolve_forum_id :: "pyval \<Rightarrow> pipeline \<Rightarrow> int option" where
  "resolve_forum_id v st =
     (case v of
        PNone \<Rightarrow> None
      | PInt i \<Rightarrow> Some i
      | PStr s \<Rightarrow> (case forum_name_to_id st s of Some m \<Rightarrow> Some m | None \<Rightarrow> forum_url_to_id st s))"

definition save_section :: "(nat \<Rightarrow> string) \<Rightarrow> section_item \<Rightarrow> pipeline \<Rightarrow> outcome" where
  "save_section now item st =
     (if \<not> connected st then Raised AssertionError st
      else if \<not> bindable (si_forum_id item) then Raised OverflowError st
      else
        let forum_id = resolve_forum_id (si_forum_id item) st;
            r = next_rowid (seq_sections st) (map s_id (sections st));
            row = \<lparr>s_id = r, s_forum_id = forum_id, s_title = si_title item, s_url = si_url item,
                   s_created_at = or_now (si_created_at item) (now 0),
                   s_updated_at = or_now (si_updated_at item) (now 1)\<rparr>;
            st1 = (if unique_conflict s_url (si_url item) (sections st)
                   then st\<lparr>seq_sections := r\<rparr>
                   else st\<lparr>sections := sections st @ [row], seq_sections := r,
                           last_insert_rowid := r\<rparr>);
            lastrowid = last_insert_rowid st1;
            section_id = (if lastrowid \<noteq> 0 then Some lastrowid
                          else select_id s_id s_url (si_url item) (sections st1))
        in Done (case si_url item of
                   None \<Rightarrow> st1
                 | Some u \<Rightarrow>
                     (case section_id of
                        None \<Rightarrow> st1
                      | Some i \<Rightarrow>
                          if u \<noteq> []
                          then st1\<lparr>section_url_to_id := (section_url_to_id st1)(u \<mapsto> i)\<rparr>
                          else st1)))"

text \<open>
  The first part of \<open>_save_thread\<close>: the section reference of the thread and, where the
  section is looked up by URL and not found, the minimal section with no forum.
\<close>

definition resolve_section :: "(nat \<Rightarrow> string) \<Rightarrow> thread_item \<Rightarrow> pipeline \<Rightarrow> pyval \<times> pipeline" where
  "resolve_section now item st =
     (if \<not> truthy (ti_section_id item) then
        (case ti_section_url item of
           None \<Rightarrow> (ti_section_id item, st)
         | Some u \<Rightarrow>
             if u = [] then (ti_section_id item, st)
             else
               let (i, st1) =
                     (case select_id s_id s_url (Some u) (sections st) of
                        Some i \<Rightarrow> (i, st)
                      | None \<Rightarrow>
                          let r = next_rowid (seq_sections st) (map s_id (sections st));
                              row = \<lparr>s_id = r, s_forum_id = None, s_title = ti_section_title item,
                                     s_url = Some u,
                                     s_created_at = or_now (ti_created_at item) (now 0),
                                     s_updated_at = or_now (ti_updated_at item) (now 1)\<rparr>
                          in (r, st\<lparr>sections := sections st @ [row], seq_sections := r,
                                     last_insert_rowid := r\<rparr>))
               in (PInt i,
                   if i \<noteq> 0
                   then st1\<lparr>section_url_to_id := (section_url_to_id st1)(u \<mapsto> i)\<rparr>
                   else st1))
      else
        (case ti_section_id item of
           PStr s \<Rightarrow> (case section_url_to_id st s of Some m \<Rightarrow> (PInt m, st) | None \<Rightarrow> (PStr s, st))
         | v \<Rightarrow> (v, st)))"

definition save_thread :: "(string \<Rightarrow> sqlval) \<Rightarrow> (nat \<Rightarrow> string) \<Rightarrow> thread_item \<Rightarrow> pipeline \<Rightarrow> outcome" where
  "save_thread aff now item st =
     (if \<not> connected st then Raised AssertionError st
      else
        case resolve_section now item st of
          (section_id, st1) \<Rightarrow>
            if \<not> (bindable (ti_section_id item) \<and> fits64_opt (ti_replies item)
                    \<and> fits64_opt (ti_views item))
            then Raised OverflowError st1
            else
              let sv = bind aff section_id;
                  r = next_rowid (seq_threads st1) (map t_id (threads st1));
                  row = \<lparr>t_id = r, t_section_id = sv, t_title = ti_title item, t_url = ti_url item,
                         t_author = ti_author item, t_replies = ti_replies item,
                         t_views = ti_views item, t_last_post_date = ti_last_post_date item,
                         t_last_post_author = ti_last_post_author item,
                         t_created_at = or_now (ti_created_at item) (now 2),
                         t_updated_at = or_now (ti_updated_at item) (now 3)\<rparr>;
                  ignored = (sv = Null \<or> unique_conflict t_url (ti_url item) (threads st1))
              in if \<not> ignored \<and> \<not> fk_ok sv (sections st1) then Raised IntegrityError st1
                 else
                   let st2 = (if ignored then st1\<lparr>seq_threads := r\<rparr>
                              else st1\<lparr>threads := threads st1 @ [row], seq_threads := r,
                                       last_insert_rowid := r\<rparr>);
                       lastrowid = last_insert_rowid st2;
                       thread_id = (if lastrowid \<noteq> 0 then Some lastrowid
                                    else select_id t_id t_url (ti_url item) (threads st2))
                   in Done (case ti_url item of
                              None \<Rightarrow> st2
                            | Some u \<Rightarrow>
                                (case thread_id of
                                   None \<Rightarrow> st2
                                 | Some i \<Rightarrow>
                                     if u \<noteq> []
                                     then st2\<lparr>thread_url_to_id := (thread_url_to_id st2)(u \<mapsto> i)\<rparr>
                                     else st2)))"

definition save_user :: "(nat \<Rightarrow> string) \<Rightarrow> user_item \<Rightarrow> pipeline \<Rightarrow> outcome" where
  "save_user now item st =
     (if \<not> connected st then Raised AssertionError st
      else if \<not> fits64_opt (ui_posts_count item) then Raised OverflowError st
      else
        let r = next_rowid (seq_users st) (map u_id (users st));
            row = \<lparr>u_id = r, u_username = ui_username item, u_join_date = ui_join_date item,
                   u_posts_count = ui_posts_count item, u_religion = ui_religion item,
                   u_gender = ui_gender item, u_localization = ui_localization item,
                   u_created_at = or_now (ui_created_at item) (now 0),
                   u_updated_at = or_now (ui_updated_at item) (now 1)\<rparr>;
            st1 = (if unique_conflict u_username (ui_username item) (users st)
                   then st\<lparr>seq_users := r\<rparr>
                   else st\<lparr>users := users st @ [row], seq_users := r, last_insert_rowid := r\<rparr>);
            lastrowid = last_insert_rowid st1;
            user_id = (if lastrowid \<noteq> 0 then Some lastrowid
                       else select_id u_id u_username (ui_username item) (users st1))
        in Done (case ui_username item of
                   None \<Rightarrow> st1
                 | Some n \<Rightarrow>
                     (case user_id of
                        None \<Rightarrow> st1
                      | Some i \<Rightarrow>
                          if n \<noteq> []
                          then st1\<lparr>user_name_to_id := (user_name_to_id st1)(n \<mapsto> i)\<rparr>
                          else st1)))"

definition normalize_thread_id :: "pyval \<Rightarrow> error + pyval" where
  "normalize_thread_id v =
     (case v of
        PStr s \<Rightarrow>
          if py_isdigit s
          then (case py_int s of Inl e \<Rightarrow> Inl e | Inr n \<Rightarrow> Inr (PInt n))
          else Inr (PStr s)
      | _ \<Rightarrow> Inr v)"

definition resolve_user_id :: "post_item \<Rightarrow> pipeline \<Rightarrow> pyval" where
  "resolve_user_id item st =
     (if \<not> truthy (pi_user_id item) \<and> truthy_str (pi_username item)
      then (case pi_username item of
              None \<Rightarrow> PNone
            | Some n \<Rightarrow> (case user_name_to_id st n of None \<Rightarrow> PNone | Some i \<Rightarrow> PInt i))
      else pi_user_id item)"

definition save_post :: "(string \<Rightarrow> sqlval) \<Rightarrow> (nat \<Rightarrow> string) \<Rightarrow> post_item \<Rightarrow> pipeline \<Rightarrow> outcome" where
  "save_post aff now item st =
     (if \<not> connected st then Raised AssertionError st
      else
        case normalize_thread_id (pi_thread_id item) of
          Inl e \<Rightarrow> Raised e st
        | Inr thread_id \<Rightarrow>
            let user_id = resolve_user_id item st;
                content_urls_str = map_option json_dumps (pi_content_urls item)
            in if \<not> (bindable thread_id \<and> bindable (pi_user_id item)
                       \<and> fits64_opt (pi_post_number item))
               then Raised OverflowError st
               else
                 let tv = bind aff thread_id;
                     r = next_rowid (seq_posts st) (map p_id (posts st));
                     row = \<lparr>p_id = r, p_thread_id = tv, p_user_id = bind aff user_id,
                            p_post_number = pi_post_number item, p_content = pi_content item,
                            p_content_urls = content_urls_str, p_post_date = pi_post_date item,
                            p_url = pi_url item, p_username = pi_username item,
                            p_created_at = or_now (pi_created_at item) (now 0),
                            p_updated_at = or_now (pi_updated_at item) (now 1)\<rparr>
                 in Done (st\<lparr>posts := filter (\<lambda>q. \<not> post_conflict tv (pi_post_number item) q) (posts st)
                                       @ [row],
                              seq_posts := r, last_insert_rowid := r\<rparr>))"

definition process_item :: "(string \<Rightarrow> sqlval) \<Rightarrow> (nat \<Rightarrow> string) \<Rightarrow> item \<Rightarrow> pipeline \<Rightarrow> outcome" where
  "process_item aff now it st =
     (if \<not> connected st then Raised RuntimeError st
      else case it of
        Forum i \<Rightarrow> save_forum now i st
      | Section i \<Rightarrow> save_section now i st
      | Thread i \<Rightarrow> save_thread aff now i st
      | User i \<Rightarrow> save_user now i st
      | Post i \<Rightarrow> save_post aff now i st
      | Other \<Rightarrow> Done st)"

text \<open>
  A run over the entities a crawl emits, each with the clock's readings while it is
  saved. The crawl driver logs an exception of \<open>process_item\<close> and goes on with the
  next entity, on the pipeline as the failed call left it.
\<close>

fun run :: "(string \<Rightarrow> sqlval) \<Rightarrow> ((nat \<Rightarrow> string) \<times> item) list \<Rightarrow> pipeline \<Rightarrow> pipeline" where
  "run aff [] st = st"
| "run aff ((now, it) # xs) st = run aff xs (final (process_item aff now it st))"

section \<open>The standard library: \<open>urllib.parse\<close>\<close>

text \<open>
  \<open>urlparse\<close> and \<open>parse_qs\<close> as CPython 3.11 has them, for \<open>str\<close> arguments. Three
  pieces of the library are parameters of the model: the check of a host written in
  brackets (it parses an IP address), the decoding of a string that holds \<open>%\<close> escapes
  (it yields code points of any size), and \<open>urljoin\<close> of a base and a reference that
  are both not empty. A library from before the bracket check is the parameter that
  accepts every host. The check of the network location under NFKC normalisation never
  fails below code point 256 and is left out.
\<close>

record stdlib =
  check_bracketed_host :: "string \<Rightarrow> bool"
  unquote_escapes :: "string \<Rightarrow> string"
  urljoin :: "string \<Rightarrow> string \<Rightarrow> error + string"

record url_parts =
  url_scheme :: string
  url_netloc :: string
  url_path :: string
  url_params :: string
  url_query :: string
  url_fragment :: string

text \<open>\<open>s.partition(c)\<close> when \<open>c\<close> occurs in \<open>s\<close>: the text before and after its first occurrence.\<close>

primrec partition_at :: "char \<Rightarrow> string \<Rightarrow> (string \<times> string) option" where
  "partition_at c [] = None"
| "partition_at c (x # xs) =
     (if x = c then Some ([], xs)
      else (case partition_at c xs of None \<Rightarrow> None | Some (a, b) \<Rightarrow> Some (x # a, b)))"

text \<open>\<open>s.split(c)\<close>.\<close>

primrec split_on :: "char \<Rightarrow> string \<Rightarrow> string list" where
  "split_on c [] = [[]]"
| "split_on c (x # xs) =
     (if x = c then [] # split_on c xs
      else (case split_on c xs of [] \<Rightarrow> [[x]] | p # ps \<Rightarrow> (x # p) # ps))"

fun starts_with :: "string \<Rightarrow> string \<Rightarrow> bool" where
  "starts_with [] s = True"
| "starts_with (p # ps) [] = False"
| "starts_with (p # ps) (c # cs) = (p = c \<and> starts_with ps cs)"

text \<open>\<open>needle in haystack\<close>.\<close>

primrec py_in :: "string \<Rightarrow> string \<Rightarrow> bool" where
  "py_in n [] = (n = [])"
| "py_in n (c # cs) = (starts_with n (c # cs) \<or> py_in n cs)"

definition is_c0_or_space :: "char \<Rightarrow> bool" where
  "is_c0_or_space c = ((of_char c :: nat) \<le> 32)"

definition is_unsafe :: "char \<Rightarrow> bool" where
  "is_unsafe c = (c = CHR 0x09 \<or> c = CHR 0x0D \<or> c = CHR 0x0A)"

definition is_ascii_upper :: "char \<Rightarrow> bool" where
  "is_ascii_upper c = (65 \<le> (of_char c :: nat) \<and> (of_char c :: nat) \<le> 90)"

definition is_ascii_alpha :: "char \<Rightarrow> bool" where
  "is_ascii_alpha c = (is_ascii_upper c \<or> (97 \<le> (of_char c :: nat) \<and> (of_char c :: nat) \<le> 122))"

definition is_scheme_char :: "char \<Rightarrow> bool" where
  "is_scheme_char c =
     (is_ascii_alpha c \<or> is_decimal c \<or> c = CHR ''+'' \<or> c = CHR ''-'' \<or> c = CHR ''.'')"

definition ascii_lower :: "char \<Rightarrow> char" where
  "ascii_lower c = (if is_ascii_upper c then char_of ((of_char c :: nat) + 32) else c)"

definition uses_params :: "string list" where
  "uses_params = ['''', ''ftp'', ''hdl'', ''prospero'', ''http'', ''imap'', ''https'', ''shttp'',
                  ''rtsp'', ''rtsps'', ''rtspu'', ''sip'', ''sips'', ''mms'', ''sftp'', ''tel'']"

definition split_scheme :: "string \<Rightarrow> string \<times> string" where
  "split_scheme url =
     (case partition_at CHR '':'' url of
        None \<Rightarrow> ([], url)
      | Some (pre, rest) \<Rightarrow>
          if pre \<noteq> [] \<and> is_ascii_alpha (hd pre) \<and> list_all is_scheme_char pre
          then (map ascii_lower pre, rest)
          else ([], url))"

definition is_delimiter :: "char \<Rightarrow> bool" where
  "is_delimiter c = (c = CHR ''/'' \<or> c = CHR ''?'' \<or> c = CHR ''#'')"

text \<open>\<open>netloc.partition('[')[2].partition(']')[0]\<close>.\<close>

definition bracketed_host :: "string \<Rightarrow> string" where
  "bracketed_host netloc =
     takeWhile (\<lambda>c. c \<noteq> CHR '']'') (drop 1 (dropWhile (\<lambda>c. c \<noteq> CHR ''['') netloc))"

text \<open>
  \<open>urlsplit\<close>: scheme, netloc, the rest of the URL, query and fragment, or
  \<open>ValueError\<close> for brackets that do not pair or do not hold an address.
\<close>

definition urlsplit :: "stdlib \<Rightarrow> string \<Rightarrow> error + (string \<times> string \<times> string \<times> string \<times> string)" where
  "urlsplit lib url0 =
     (let url1 = filter (\<lambda>c. \<not> is_unsafe c) (dropWhile is_c0_or_space url0);
          (scheme, url2) = split_scheme url1;
          (netloc, url3) =
            (if take 2 url2 = ''//''
             then (takeWhile (\<lambda>c. \<not> is_delimiter c) (drop 2 url2),
                   dropWhile (\<lambda>c. \<not> is_delimiter c) (drop 2 url2))
             else ([], url2));
          opens = (CHR ''['' \<in> set netloc);
          closes = (CHR '']'' \<in> set netloc)
      in if (opens \<and> \<not> closes) \<or> (closes \<and> \<not> opens) then Inl ValueError
         else if opens \<and> closes \<and> \<not> check_bracketed_host lib (bracketed_host netloc)
         then Inl ValueError
         else
           let (url4, fragment) =
                 (case partition_at CHR ''#'' url3 of None \<Rightarrow> (url3, []) | Some (a, b) \<Rightarrow> (a, b));
               (url5, query) =
                 (case partition_at CHR ''?'' url4 of None \<Rightarrow> (url4, []) | Some (a, b) \<Rightarrow> (a, b))
           in Inr (scheme, netloc, url5, query, fragment))"

definition splitparams :: "string \<Rightarrow> string \<times> string" where
  "splitparams url =
     (if CHR ''/'' \<in> set url
      then
        let last_part = rev (takeWhile (\<lambda>c. c \<noteq> CHR ''/'') (rev url));
            front = take (length url - length last_part) url
        in (case partition_at CHR '';'' last_part of
              None \<Rightarrow> (url, [])
            | Some (a, b) \<Rightarrow> (front @ a, b))
      else (case partition_at CHR '';'' url of None \<Rightarrow> (url, []) | Some (a, b) \<Rightarrow> (a, b)))"

definition urlparse :: "stdlib \<Rightarrow> string \<Rightarrow> error + url_parts" where
  "urlparse lib url =
     (case urlsplit lib url of
        Inl e \<Rightarrow> Inl e
      | Inr (scheme, netloc, rest, query, fragment) \<Rightarrow>
          let (path, params) =
                (if scheme \<in> set uses_params \<and> CHR '';'' \<in> set rest then splitparams rest
                 else (rest, []))
          in Inr \<lparr>url_scheme = scheme, url_netloc = netloc, url_path = path,
                  url_params = params, url_query = query, url_fragment = fragment\<rparr>)"

definition unquote :: "stdlib \<Rightarrow> string \<Rightarrow> string" where
  "unquote lib s = (if CHR ''%'' \<in> set s then unquote_escapes lib s else s)"

definition unquote_plus :: "stdlib \<Rightarrow> string \<Rightarrow> string" where
  "unquote_plus lib s = unquote lib (map (\<lambda>c. if c = CHR ''+'' then CHR '' '' else c) s)"

text \<open>\<open>parse_qsl\<close> with its defaults: pairs split at \<open>&\<close>, blank values dropped.\<close>

definition parse_field :: "stdlib \<Rightarrow> string \<Rightarrow> (string \<times> string) list" where
  "parse_field lib name_value =
     (if name_value = [] then []
      else (case partition_at CHR ''='' name_value of
              None \<Rightarrow> []
            | Some (name, v) \<Rightarrow>
                if v = [] then [] else [(unquote_plus lib name, unquote_plus lib v)]))"

definition parse_qsl :: "stdlib \<Rightarrow> string \<Rightarrow> (string \<times> string) list" where
  "parse_qsl lib qs = concat (map (parse_field lib) (split_on CHR ''&'' qs))"

text \<open>\<open>parse_qs(query).get(key)\<close>: the values of the key in their order, none when it is absent.\<close>

definition qs_get :: "(string \<times> string) list \<Rightarrow> string \<Rightarrow> string list" where
  "qs_get pairs key = map snd (filter (\<lambda>f. fst f = key) pairs)"

section \<open>The identifier extractor\<close>

text \<open>
  The loop of \<open>BaseForumSpider._get_thread_id_from_url\<close> over the keys \<open>t\<close> and
  \<open>p\<close>: the \<open>return int(val)\<close> it reaches first, which can raise, or none.
\<close>

primrec scan_keys :: "(string \<times> string) list \<Rightarrow> string list \<Rightarrow> (error + int) option" where
  "scan_keys pairs [] = None"
| "scan_keys pairs (key # keys) =
     (case qs_get pairs key of
        [] \<Rightarrow> scan_keys pairs keys
      | v # vs \<Rightarrow> if v \<noteq> [] \<and> py_isdigit v then Some (py_int v) else scan_keys pairs keys)"

text \<open>
  \<open>re.search(r"(\d+)$", path)\<close>: the digits the path ends with, where \<open>$\<close> also matches
  before a line feed that ends the string.
\<close>

definition trailing_digits :: "string \<Rightarrow> string" where
  "trailing_digits s =
     (let body = (if s \<noteq> [] \<and> last s = CHR 0x0A then butlast s else s)
      in rev (takeWhile is_decimal (rev body)))"

definition get_thread_id_from_url :: "stdlib \<Rightarrow> string option \<Rightarrow> error + int option" where
  "get_thread_id_from_url lib url =
     (case url of
        None \<Rightarrow> Inr None
      | Some u \<Rightarrow>
          if u = [] then Inr None
          else (case urlparse lib u of
                  Inl e \<Rightarrow> Inl e
                | Inr parsed \<Rightarrow>
                    (case scan_keys (parse_qsl lib (url_query parsed)) [''t'', ''p''] of
                       Some (Inl e) \<Rightarrow> Inl e
                     | Some (Inr n) \<Rightarrow> Inr (Some n)
                     | None \<Rightarrow>
                         if trailing_digits (url_path parsed) = [] then Inr None
                         else (case py_int (trailing_digits (url_path parsed)) of
                                 Inl e \<Rightarrow> Inr None
                               | Inr n \<Rightarrow> Inr (Some n)))))"

text \<open>
  \<open>WiaraSpider._get_thread_id_from_url\<close>, which overrides it: the first value of \<open>t\<close>
  as it stands, and \<open>None\<close> for every exception.
\<close>

definition wiara_get_thread_id_from_url :: "stdlib \<Rightarrow> string \<Rightarrow> string option" where
  "wiara_get_thread_id_from_url lib thread_url =
     (case urlparse lib thread_url of
        Inl e \<Rightarrow> None
      | Inr parsed \<Rightarrow>
          (case qs_get (parse_qsl lib (url_query parsed)) ''t'' of
             [] \<Rightarrow> None
           | v # vs \<Rightarrow> if v \<noteq> [] then Some v else None))"

section \<open>Pagination links\<close>

text \<open>
  A fetched page, as far as the pagination helpers read it: its URL and its \<open>a\<close>
  elements in document order, each with its \<open>href\<close> attribute and whether it stands
  in a \<open>td.gensmall\<close> cell. The attribute selector \<open>[href*="x"]\<close> matches a
  \<open>href\<close> that contains \<open>x\<close>, and nothing when \<open>x\<close> is empty; the view type
  that the helper writes into the selector is taken to hold no quotation mark.
\<close>

record anchor =
  a_href :: "string option"
  a_in_gensmall :: bool

record response =
  resp_url :: string
  resp_anchors :: "anchor list"

definition css_contains :: "string \<Rightarrow> string \<Rightarrow> bool" where
  "css_contains x href = (x \<noteq> [] \<and> py_in x href)"

definition hrefs_with :: "string list \<Rightarrow> anchor list \<Rightarrow> string list" where
  "hrefs_with needles anchors =
     concat (map (\<lambda>a. case a_href a of
                         None \<Rightarrow> []
                       | Some h \<Rightarrow> if list_all (\<lambda>x. css_contains x h) needles then [h] else [])
                 anchors)"

text \<open>\<open>parse_qs(query).get("start", ["0"])[0]\<close>: the paging offset.\<close>

definition start_of :: "stdlib \<Rightarrow> string \<Rightarrow> string" where
  "start_of lib query = (case qs_get (parse_qsl lib query) ''start'' of [] \<Rightarrow> ''0'' | v # vs \<Rightarrow> v)"

primrec collect_links :: "stdlib \<Rightarrow> string \<Rightarrow> string \<Rightarrow> string \<Rightarrow> string list \<Rightarrow> error + string list" where
  "collect_links lib base view_type current_start [] = Inr []"
| "collect_links lib base view_type current_start (href # hrefs) =
     (case (if base = [] then Inr href else if href = [] then Inr base else urljoin lib base href) of
        Inl e \<Rightarrow> Inl e
      | Inr full_url \<Rightarrow>
          (case urlparse lib full_url of
             Inl e \<Rightarrow> Inl e
           | Inr parsed \<Rightarrow>
               if \<not> py_in view_type (url_path parsed)
               then collect_links lib base view_type current_start hrefs
               else if start_of lib (url_query parsed) = current_start
               then collect_links lib base view_type current_start hrefs
               else (case collect_links lib base view_type current_start hrefs of
                       Inl e \<Rightarrow> Inl e
                     | Inr links \<Rightarrow> Inr (full_url # links))))"

text \<open>The loop that drops the duplicates and keeps each URL where it is seen first.\<close>

primrec unique_links :: "string list \<Rightarrow> string list \<Rightarrow> string list" where
  "unique_links seen [] = []"
| "unique_links seen (url # links) =
     (if url \<in> set seen then unique_links seen links
      else url # unique_links (url # seen) links)"

definition extract_forum_pagination_links :: "stdlib \<Rightarrow> response \<Rightarrow> string \<Rightarrow> error + string list" where
  "extract_forum_pagination_links lib resp view_type =
     (case urlparse lib (resp_url resp) of
        Inl e \<Rightarrow> Inl e
      | Inr current_parsed \<Rightarrow>
          let current_start = start_of lib (url_query current_parsed);
              hrefs0 = hrefs_with [view_type, ''start=''] (resp_anchors resp);
              hrefs = (if hrefs0 = [] then hrefs_with [''start=''] (resp_anchors resp) else hrefs0)
          in (case collect_links lib (resp_url resp) view_type current_start hrefs of
                Inl e \<Rightarrow> Inl e
              | Inr links \<Rightarrow> Inr (unique_links [] links)))"

text \<open>\<open>WiaraSpider._extract_thread_pagination_links\<close>.\<close>

primrec join_all :: "stdlib \<Rightarrow> string \<Rightarrow> string list \<Rightarrow> error + string list" where
  "join_all lib base [] = Inr []"
| "join_all lib base (href # hrefs) =
     (if href = [] then join_all lib base hrefs
      else (case (if base = [] then Inr href else urljoin lib base href) of
              Inl e \<Rightarrow> Inl e
            | Inr full_url \<Rightarrow>
                (case join_all lib base hrefs of
                   Inl e \<Rightarrow> Inl e
                 | Inr links \<Rightarrow> Inr (full_url # links))))"

definition extract_thread_pagination_links :: "stdlib \<Rightarrow> response \<Rightarrow> error + string list" where
  "extract_thread_pagination_links lib resp =
     join_all lib (resp_url resp)
       (hrefs_with [''viewtopic.php''] (filter a_in_gensmall (resp_anchors resp)))"

section \<open>The page parser: one post row\<close>

text \<open>
  The helpers of \<open>forums_scraper.utils\<close> are not among the sources; each is a parameter
  that returns a value or raises.
\<close>

datatype 'a call = Returns 'a | Throws

record utils =
  strip_quotes_from_html :: "string \<Rightarrow> string call"
  extract_urls_from_html :: "string \<Rightarrow> string \<Rightarrow> string list call"
  clean_post_content :: "string \<Rightarrow> string call"
  parse_polish_date :: "string \<Rightarrow> string option call"

text \<open>
  A table row of a thread page, as \<open>_extract_post_data\<close> queries it: whether
  \<open>td:first-child .postauthor\<close> selects anything and its first text, the \<open>href\<close> of the
  post's subject link, the markup of the first \<open>.postbody\<close> element of the second cell,
  whether a row follows and the first \<open>.postbottom\<close> text in it.
\<close>

record post_html =
  has_postauthor :: bool
  postauthor_text :: "string option"
  postsubject_href :: "string option"
  postbody :: "string option"
  has_next_row :: bool
  postbottom_text :: "string option"

definition is_space :: "char \<Rightarrow> bool" where
  "is_space c =
     ((9 \<le> (of_char c :: nat) \<and> (of_char c :: nat) \<le> 13)
      \<or> (28 \<le> (of_char c :: nat) \<and> (of_char c :: nat) \<le> 32)
      \<or> (of_char c :: nat) = 133 \<or> (of_char c :: nat) = 160)"

definition py_strip :: "string \<Rightarrow> string" where
  "py_strip s = rev (dropWhile is_space (rev (dropWhile is_space s)))"

text \<open>\<open>re.search(r'p=(\d+)', link)\<close>: the digits of the first \<open>p=\<close> that digits follow.\<close>

primrec find_p_number :: "string \<Rightarrow> string option" where
  "find_p_number [] = None"
| "find_p_number (c # cs) =
     (if c = CHR ''p'' \<and> starts_with ''='' cs \<and> takeWhile is_decimal (drop 1 cs) \<noteq> []
      then Some (takeWhile is_decimal (drop 1 cs))
      else find_p_number cs)"

definition post_link_fields :: "stdlib \<Rightarrow> string \<Rightarrow> string option \<Rightarrow> (string option \<times> int option) call" where
  "post_link_fields lib response_url post_link =
     (if \<not> truthy_str post_link then Returns (None, None)
      else case post_link of
        None \<Rightarrow> Returns (None, None)
      | Some link \<Rightarrow>
          (case (if response_url = [] then Inr link else urljoin lib response_url link) of
             Inl e \<Rightarrow> Throws
           | Inr post_url \<Rightarrow>
               (case find_p_number link of
                  None \<Rightarrow> Returns (Some post_url, None)
                | Some ds \<Rightarrow>
                    (case py_int ds of
                       Inl e \<Rightarrow> Throws
                     | Inr n \<Rightarrow> Returns (Some post_url, Some n)))))"

definition post_content :: "utils \<Rightarrow> string \<Rightarrow> string option \<Rightarrow> (string \<times> string list) call" where
  "post_content ut response_url body =
     (case body of
        None \<Rightarrow> Returns ([], [])
      | Some content_html \<Rightarrow>
          (case strip_quotes_from_html ut content_html of
             Throws \<Rightarrow> Throws
           | Returns content_html_no_quotes \<Rightarrow>
               (case extract_urls_from_html ut content_html_no_quotes response_url of
                  Throws \<Rightarrow> Throws
                | Returns content_urls \<Rightarrow>
                    (case clean_post_content ut content_html_no_quotes of
                       Throws \<Rightarrow> Throws
                     | Returns content \<Rightarrow> Returns (content, content_urls)))))"

definition post_date_field :: "utils \<Rightarrow> post_html \<Rightarrow> string option call" where
  "post_date_field ut row =
     (if \<not> has_next_row row then Returns None
      else case postbottom_text row of
        None \<Rightarrow> Returns None
      | Some date_text \<Rightarrow>
          if date_text = [] then Returns None
          else (case parse_polish_date ut (py_strip date_text) of
                  Throws \<Rightarrow> Throws
                | Returns None \<Rightarrow> Returns (Some (py_strip date_text))
                | Returns (Some d) \<Rightarrow> Returns (Some d)))"

text \<open>\<open>WiaraSpider._extract_post_data\<close>: the post entity of a row, none when the row is skipped.\<close>

definition extract_post_data :: "utils \<Rightarrow> stdlib \<Rightarrow> string \<Rightarrow> pyval \<Rightarrow> post_html \<Rightarrow> post_item option" where
  "extract_post_data ut lib response_url thread_id row =
     (if \<not> has_postauthor row then None
      else case postauthor_text row of
        None \<Rightarrow> None
      | Some author_text \<Rightarrow>
          if author_text = [] then None
          else (case post_link_fields lib response_url (postsubject_href row) of
                  Throws \<Rightarrow> None
                | Returns (post_url, post_number) \<Rightarrow>
                    (case post_content ut response_url (postbody row) of
                       Throws \<Rightarrow> None
                     | Returns (content, content_urls) \<Rightarrow>
                         (case post_date_field ut row of
                            Throws \<Rightarrow> None
                          | Returns post_date \<Rightarrow>
                              Some \<lparr>pi_thread_id = thread_id, pi_user_id = PNone,
                                    pi_username = Some (py_strip author_text),
                                    pi_post_number = post_number, pi_content = Some content,
                                    pi_content_urls = Some content_urls,
                                    pi_post_date = post_date, pi_url = post_url,
                                    pi_created_at = None, pi_updated_at = None\<rparr>))))"

section \<open>Notions for the properties\<close>

text \<open>
  The \<open>UNIQUE\<close> constraint of a text column holds of a table: no two rows share a
  value that is not \<open>NULL\<close>. \<open>store_ok\<close> says so of the URL of sections, the URL of
  threads and the name of users.
\<close>

definition unique_col :: "('r \<Rightarrow> string option) \<Rightarrow> 'r list \<Rightarrow> bool" where
  "unique_col col rows =
     distinct (concat (map (\<lambda>r. case col r of None \<Rightarrow> [] | Some u \<Rightarrow> [u]) rows))"

definition store_ok :: "pipeline \<Rightarrow> bool" where
  "store_ok st =
     (unique_col s_url (sections st) \<and> unique_col t_url (threads st)
      \<and> unique_col u_username (users st))"

text \<open>
  The number a query parameter gives: its first value when that is a string of decimal
  digits. \<open>convertible\<close> says that \<open>int\<close> accepts the first value of the key whenever
  \<open>isdigit\<close> holds of it: the value is then made of the decimal digits \<open>0\<close> to \<open>9\<close>
  only, with no superscript digit, and has at most 4300 of them. The number a path
  gives: the digits it ends with, when there are some and at most 4300.
\<close>

definition id_param :: "(string \<times> string) list \<Rightarrow> string \<Rightarrow> int option" where
  "id_param pairs key =
     (case qs_get pairs key of
        [] \<Rightarrow> None
      | v # vs \<Rightarrow> if v \<noteq> [] \<and> list_all is_decimal v then Some (decimal_value v) else None)"

definition convertible :: "(string \<times> string) list \<Rightarrow> string \<Rightarrow> bool" where
  "convertible pairs key =
     (case qs_get pairs key of
        [] \<Rightarrow> True
      | v # vs \<Rightarrow> py_isdigit v \<longrightarrow> list_all is_decimal v \<and> length v \<le> 4300)"

definition path_number :: "string \<Rightarrow> int option" where
  "path_number path =
     (if trailing_digits path = [] \<or> 4300 < length (trailing_digits path) then None
      else Some (decimal_value (trailing_digits path)))"

text \<open>The paging offset of a URL differs from the given one.\<close>

definition other_offset :: "stdlib \<Rightarrow> string \<Rightarrow> string \<Rightarrow> bool" where
  "other_offset lib current_start u =
     (case urlparse lib u of
        Inl e \<Rightarrow> False
      | Inr parsed \<Rightarrow> start_of lib (url_query parsed) \<noteq> current_start)"

text \<open>
  The pair under which \<open>UNIQUE (thread_id, post_number)\<close> keys the row of a post:
  the thread reference as it is bound and the sequence number, when the statement can
  be executed and neither is \<open>NULL\<close>.
\<close>

definition post_key :: "(string \<Rightarrow> sqlval) \<Rightarrow> post_item \<Rightarrow> (sqlval \<times> int) option" where
  "post_key aff item =
     (case normalize_thread_id (pi_thread_id item) of
        Inl e \<Rightarrow> None
      | Inr t \<Rightarrow>
          (case pi_post_number item of
             None \<Rightarrow> None
           | Some n \<Rightarrow>
               if bindable t \<and> fits64 n \<and> bind aff t \<noteq> Null then Some (bind aff t, n) else None))"

definition keyed :: "sqlval \<times> int \<Rightarrow> post_row \<Rightarrow> bool" where
  "keyed k q = (p_thread_id q = fst k \<and> p_post_number q = Some (snd k))"

text \<open>
  The entities as the spiders of the repository emit them: a section with its URL, a
  thread with its URL and no section id (\<open>_extract_thread_data\<close> and
  \<open>_build_minimal_thread_item\<close> set none), a user with a username. Forums and posts
  are not restricted: a post comes with or without a thread reference and a sequence
  number.
\<close>

definition emitted :: "item \<Rightarrow> bool" where
  "emitted it =
     (case it of
        Section i \<Rightarrow> si_url i \<noteq> None
      | Thread i \<Rightarrow> ti_section_id i = PNone \<and> ti_url i \<noteq> None
      | User i \<Rightarrow> ui_username i \<noteq> None
      | _ \<Rightarrow> True)"

text \<open>
  A post that is stored under no key: the statement can be executed, and the thread
  reference it binds or the sequence number is \<open>NULL\<close>. \<open>INSERT OR REPLACE\<close> then
  finds no row to replace and appends one.
\<close>

definition appended :: "(string \<Rightarrow> sqlval) \<Rightarrow> item \<Rightarrow> bool" where
  "appended aff it =
     (case it of
        Post i \<Rightarrow>
          (case normalize_thread_id (pi_thread_id i) of
             Inl e \<Rightarrow> False
           | Inr t \<Rightarrow>
               bindable t \<and> bindable (pi_user_id i) \<and> fits64_opt (pi_post_number i)
               \<and> (bind aff t = Null \<or> pi_post_number i = None))
      | _ \<Rightarrow> False)"

text \<open>A forum entity that \<open>_save_forum\<close> stores: one with a spider name.\<close>

definition stored_forum :: "item \<Rightarrow> bool" where
  "stored_forum it = (case it of Forum i \<Rightarrow> fi_spider_name i \<noteq> None | _ \<Rightarrow> False)"

text \<open>
  The store already holds what saving the entity would add: the section's URL, the
  thread's section and URL, the username, one row under the post's key.
\<close>

definition settled :: "(string \<Rightarrow> sqlval) \<Rightarrow> item \<Rightarrow> pipeline \<Rightarrow> bool" where
  "settled aff it st =
     (case it of
        Section i \<Rightarrow> unique_conflict s_url (si_url i) (sections st) \<or> \<not> bindable (si_forum_id i)
      | Thread i \<Rightarrow>
          (if truthy_str (ti_section_url i)
           then unique_conflict s_url (ti_section_url i) (sections st)
                \<and> (unique_conflict t_url (ti_url i) (threads st)
                    \<or> \<not> (fits64_opt (ti_replies i) \<and> fits64_opt (ti_views i)))
           else True)
      | User i \<Rightarrow> unique_conflict u_username (ui_username i) (users st) \<or> \<not> fits64_opt (ui_posts_count i)
      | Post i \<Rightarrow>
          (case post_key aff i of
             None \<Rightarrow> True
           | Some k \<Rightarrow> \<not> bindable (pi_user_id i) \<or> length (filter (keyed k) (posts st)) = 1)
      | _ \<Rightarrow> True)"

text \<open>The sections, threads and users tables only grow at the end, and the connection stays.\<close>

definition grows :: "pipeline \<Rightarrow> pipeline \<Rightarrow> bool" where
  "grows st st' =
     (connected st' = connected st
      \<and> (\<exists>e. sections st' = sections st @ e)
      \<and> (\<exists>e. threads st' = threads st @ e)
      \<and> (\<exists>e. users st' = users st @ e))"

subsection \<open>Sample entities\<close>

definition sample_clock :: "nat \<Rightarrow> string" where
  "sample_clock k = ''2024-05-01T12:00:00''"

definition sample_section :: "string \<Rightarrow> string \<Rightarrow> section_item" where
  "sample_section title url =
     \<lparr>si_forum_id = PStr ''wiara'', si_title = Some title, si_url = Some url,
      si_created_at = None, si_updated_at = None\<rparr>"

definition sample_thread :: "string option \<Rightarrow> string \<Rightarrow> thread_item" where
  "sample_thread section_url url =
     \<lparr>ti_section_id = PNone, ti_section_url = section_url, ti_section_title = None,
      ti_title = Some ''Hello World'', ti_url = Some url, ti_author = None, ti_replies = Some 0,
      ti_views = Some 0, ti_last_post_date = None, ti_last_post_author = None,
      ti_created_at = None, ti_updated_at = None\<rparr>"

definition sample_user :: "string \<Rightarrow> string option \<Rightarrow> user_item" where
  "sample_user n gender =
     \<lparr>ui_username = Some n, ui_join_date = None, ui_posts_count = None, ui_religion = None,
      ui_gender = gender, ui_localization = None, ui_created_at = None, ui_updated_at = None\<rparr>"

definition sample_post :: "pyval \<Rightarrow> int option \<Rightarrow> string \<Rightarrow> string \<Rightarrow> post_item" where
  "sample_post t n author body =
     \<lparr>pi_thread_id = t, pi_user_id = PNone, pi_username = Some author, pi_post_number = n,
      pi_content = Some body, pi_content_urls = Some [], pi_post_date = None, pi_url = None,
      pi_created_at = None, pi_updated_at = None\<rparr>"

definition sample_forum :: forum_item where
  "sample_forum =
     \<lparr>fi_spider_name = Some ''wiara'', fi_title = Some ''wiara.pl'', fi_url = None,
      fi_created_at = None, fi_updated_at = None\<rparr>"

text \<open>
  One crawl of a forum with one section, one thread, one user and two posts; the second
  post has no sequence number, as when its subject link is missing on the page.
\<close>

definition sample_crawl :: "((nat \<Rightarrow> string) \<times> item) list" where
  "sample_crawl =
     [(sample_clock, Forum sample_forum),
      (sample_clock, Section (sample_section ''Wiara'' ''http://f/viewforum.php?f=3'')),
      (sample_clock, Thread (sample_thread (Some ''http://f/viewforum.php?f=3'')
                               ''http://f/viewtopic.php?t=42'')),
      (sample_clock, User (sample_user ''Jan'' None)),
      (sample_clock, Post (sample_post (PStr ''42'') (Some 1087395) ''Jan'' ''Dzien dobry'')),
      (sample_clock, Post (sample_post (PStr ''42'') None ''Jan'' ''Bez numeru''))]"

text \<open>
  A stand-in for the library parameters that agrees with the library on the sample
  URLs: they hold no brackets and no escapes, and joining an absolute URL to a base
  gives that URL.
\<close>

definition sample_lib :: stdlib where
  "sample_lib =
     \<lparr>check_bracketed_host = (\<lambda>h. False), unquote_escapes = (\<lambda>s. s),
      urljoin = (\<lambda>base href. Inr href)\<rparr>"

definition sample_utils :: utils where
  "sample_utils =
     \<lparr>strip_quotes_from_html = (\<lambda>h. Returns (takeWhile (\<lambda>c. c \<noteq> CHR ''<'') h)),
      extract_urls_from_html = (\<lambda>h base. Returns []),
      clean_post_content = (\<lambda>h. Returns (py_strip h)),
      parse_polish_date = (\<lambda>d. Returns None)\<rparr>"

definition sample_row :: post_html where
  "sample_row =
     \<lparr>has_postauthor = True, postauthor_text = Some ''Jan'',
      postsubject_href = Some ''http://f/viewtopic.php?p=1087395#1087395'',
      postbody = Some ''Dzien dobry <div class=quote>cytat</div>'',
      has_next_row = True, postbottom_text = Some ''dzisiaj, 10:15''\<rparr>"

definition sample_page :: response where
  "sample_page =
     \<lparr>resp_url = ''http://f/viewtopic.php?t=42&start=15'',
      resp_anchors =
        [\<lparr>a_href = Some ''http://f/viewtopic.php?t=42&start=15'', a_in_gensmall = True\<rparr>,
         \<lparr>a_href = Some ''http://f/viewtopic.php?t=42&start=30'', a_in_gensmall = True\<rparr>,
         \<lparr>a_href = Some ''http://f/viewtopic.php?t=42&start=30'', a_in_gensmall = True\<rparr>]\<rparr>"

section \<open>Properties of the reconciler\<close>

lemma fold_max_ge: "a \<le> fold max ids (a::int)"
proof (induction ids arbitrary: a)
  case Nil
  then show ?case by simp
next
  case (Cons x xs)
  have "a \<le> max x a" by simp
  also have "max x a \<le> fold max xs (max x a)" by (rule Cons.IH)
  finally show ?case by simp
qed

lemma fold_max_mem: "i \<in> set ids \<Longrightarrow> i \<le> fold max ids (a::int)"
proof (induction ids arbitrary: a)
  case Nil
  then show ?case by simp
next
  case (Cons x xs)
  show ?case
  proof (cases "i = x")
    case True
    have "x \<le> max x a" by simp
    also have "max x a \<le> fold max xs (max x a)" by (rule fold_max_ge)
    finally show ?thesis using True by simp
  next
    case False
    with Cons.prems have "i \<in> set xs" by simp
    then show ?thesis using Cons.IH by simp
  qed
qed

lemma next_rowid_fresh: "i \<in> set ids \<Longrightarrow> i < next_rowid seq ids"
  using fold_max_mem [of i ids seq] by (simp add: next_rowid_def)

lemma next_rowid_above: "seq < next_rowid seq ids"
  using fold_max_ge [of seq ids] by (simp add: next_rowid_def)

lemmas eval_defs = run.simps final_def process_item_def save_user_def save_post_def save_thread_def
  save_section_def save_forum_def resolve_section_def resolve_user_id_def resolve_forum_id_def
  normalize_thread_id_def new_pipeline_def sample_user_def sample_post_def sample_thread_def
  sample_section_def sample_clock_def Let_def next_rowid_def unique_conflict_def select_id_def
  fk_ok_def post_conflict_def bind_def bindable_def fits64_def fits64_opt_def truthy_def
  truthy_str_def or_now_def json_dumps_def post_key_def keyed_def py_isdigit_def py_int_def

lemma find_ex: "list_ex P xs \<Longrightarrow> \<exists>r. find P xs = Some r \<and> P r"
  by (induction xs) auto

lemma find_Some_ex: "find P xs = Some r \<Longrightarrow> list_ex P xs"
  by (induction xs) (auto split: if_splits)

lemma find_append_fresh: "\<not> list_ex P xs \<Longrightarrow> P row \<Longrightarrow> find P (xs @ [row]) = Some row"
  by (induction xs) auto

lemma find_filter_single: "find P xs = Some r \<Longrightarrow> filter P xs = [row] \<Longrightarrow> r = row"
  by (induction xs) (auto split: if_splits)

subsection \<open>Posts: replace on the key, append without one\<close>

lemma filter_conflict_keyed:
  "tv \<noteq> Null \<Longrightarrow>
   filter (\<lambda>q. \<not> post_conflict tv (Some n) q \<and> p_thread_id q = tv \<and> p_post_number q = Some n) xs = []"
  by (induction xs) (auto simp: post_conflict_def)

lemma post_keyD:
  assumes "post_key aff item = Some (tv, n)"
  shows "\<exists>t. normalize_thread_id (pi_thread_id item) = Inr t \<and> bindable t \<and> bind aff t = tv
            \<and> tv \<noteq> Null \<and> pi_post_number item = Some n \<and> fits64 n"
  using assms by (auto simp: post_key_def split: sum.splits option.splits if_splits)

lemma save_post_keyed:
  assumes "connected st" "post_key aff item = Some (tv, n)" "bindable (pi_user_id item)"
  shows "\<exists>st' row. save_post aff now item st = Done st' \<and> filter (keyed (tv, n)) (posts st') = [row]
           \<and> p_content row = pi_content item \<and> connected st'"
proof -
  from post_keyD [OF assms(2)] obtain t where t:
    "normalize_thread_id (pi_thread_id item) = Inr t" "bindable t" "bind aff t = tv"
    "tv \<noteq> Null" "pi_post_number item = Some n" "fits64 n" by blast
  show ?thesis using assms(1,3) t
    by (simp add: save_post_def Let_def fits64_opt_def filter_conflict_keyed keyed_def)
qed

text \<open>
  C2. Two post upserts, one after the other, whose thread reference and sequence number
  give the same key: both return normally, and afterwards the posts table holds
  exactly one row under that key, with the content of the second upsert.
\<close>

theorem post_upsert_last_write_wins:
  assumes "connected st"
      and "post_key aff ia = Some k" "post_key aff ib = Some k"
      and "bindable (pi_user_id ia)" "bindable (pi_user_id ib)"
  shows "\<exists>sta stb row.
           save_post aff na ia st = Done sta \<and> save_post aff nb ib sta = Done stb
         \<and> filter (keyed k) (posts stb) = [row] \<and> p_content row = pi_content ib"
proof -
  obtain tv n where k: "k = (tv, n)" by (cases k)
  from save_post_keyed [OF assms(1) assms(2)[unfolded k] assms(4), of na]
  obtain sta where 1: "save_post aff na ia st = Done sta" "connected sta" by blast
  from save_post_keyed [OF 1(2) assms(3)[unfolded k] assms(5), of nb]
  obtain stb row where 2: "save_post aff nb ib sta = Done stb"
    "filter (keyed (tv, n)) (posts stb) = [row]" "p_content row = pi_content ib" by blast
  show ?thesis using 1 2 k by blast
qed

theorem post_upsert_last_write_wins_witness:
  "connected new_pipeline
   \<and> post_key TextV (sample_post (PInt 42) (Some 7) ''Jan'' ''first'') = Some (IntV 42, 7)
   \<and> post_key TextV (sample_post (PStr ''42'') (Some 7) ''Jan'' ''second'') = Some (IntV 42, 7)
   \<and> (\<exists>sta stb row.
         save_post TextV sample_clock (sample_post (PInt 42) (Some 7) ''Jan'' ''first'') new_pipeline = Done sta
       \<and> save_post TextV sample_clock (sample_post (PStr ''42'') (Some 7) ''Jan'' ''second'') sta = Done stb
       \<and> filter (keyed (IntV 42, 7)) (posts stb) = [row] \<and> p_content row = Some ''second'')"
proof -
  have a: "connected new_pipeline" by (simp add: new_pipeline_def)
  have b: "post_key TextV (sample_post (PInt 42) (Some 7) ''Jan'' ''first'') = Some (IntV 42, 7)"
    by (simp add: eval_defs)
  have c: "post_key TextV (sample_post (PStr ''42'') (Some 7) ''Jan'' ''second'') = Some (IntV 42, 7)"
    by (simp add: eval_defs is_digit_char_def is_decimal_def decimal_value_def digit_val_def)
  have d: "bindable (pi_user_id (sample_post (PInt 42) (Some 7) ''Jan'' ''first''))"
    by (simp add: eval_defs)
  have e: "bindable (pi_user_id (sample_post (PStr ''42'') (Some 7) ''Jan'' ''second''))"
    by (simp add: eval_defs)
  have f: "pi_content (sample_post (PStr ''42'') (Some 7) ''Jan'' ''second'') = Some ''second''"
    by (simp add: sample_post_def)
  show ?thesis
    using a b c post_upsert_last_write_wins [OF a b c d e, of sample_clock sample_clock]
    unfolding f by simp
qed

text \<open>
  C10. Two post upserts with no thread reference and the same sequence number: both
  return normally and the posts table gains two rows, the second upsert replacing
  nothing, since a key with a \<open>NULL\<close> conflicts with no row.
\<close>

theorem null_thread_posts_both_stored:
  assumes "connected st"
      and "pi_thread_id ia = PNone" "pi_thread_id ib = PNone"
      and "pi_post_number ib = pi_post_number ia"
      and "fits64_opt (pi_post_number ia)" "bindable (pi_user_id ia)" "bindable (pi_user_id ib)"
  shows "\<exists>sta stb ra rb.
           save_post aff na ia st = Done sta \<and> save_post aff nb ib sta = Done stb
         \<and> posts stb = posts st @ [ra, rb] \<and> p_id ra < p_id rb
         \<and> p_thread_id ra = Null \<and> p_thread_id rb = Null
         \<and> p_post_number ra = pi_post_number ia \<and> p_post_number rb = pi_post_number ia
         \<and> p_content ra = pi_content ia \<and> p_content rb = pi_content ib"
  using assms
  by (simp add: save_post_def normalize_thread_id_def bindable_def bind_def post_conflict_def
      Let_def next_rowid_above)

theorem null_thread_posts_both_stored_witness:
  "connected new_pipeline
   \<and> pi_thread_id (sample_post PNone (Some 7) ''Jan'' ''first'') = PNone
   \<and> pi_thread_id (sample_post PNone (Some 7) ''Ola'' ''second'') = PNone
   \<and> (\<exists>sta stb ra rb.
         save_post TextV sample_clock (sample_post PNone (Some 7) ''Jan'' ''first'') new_pipeline = Done sta
       \<and> save_post TextV sample_clock (sample_post PNone (Some 7) ''Ola'' ''second'') sta = Done stb
       \<and> posts stb = [ra, rb] \<and> p_id ra < p_id rb
       \<and> p_thread_id ra = Null \<and> p_thread_id rb = Null
       \<and> p_post_number ra = Some 7 \<and> p_post_number rb = Some 7
       \<and> p_content ra = Some ''first'' \<and> p_content rb = Some ''second'')"
proof -
  have a: "connected new_pipeline" by (simp add: new_pipeline_def)
  have e: "posts new_pipeline = []" by (simp add: new_pipeline_def)
  have s: "pi_thread_id (sample_post PNone (Some 7) ''Jan'' ''first'') = PNone"
    "pi_thread_id (sample_post PNone (Some 7) ''Ola'' ''second'') = PNone"
    "pi_post_number (sample_post PNone (Some 7) ''Ola'' ''second'')
       = pi_post_number (sample_post PNone (Some 7) ''Jan'' ''first'')"
    "fits64_opt (pi_post_number (sample_post PNone (Some 7) ''Jan'' ''first''))"
    "bindable (pi_user_id (sample_post PNone (Some 7) ''Jan'' ''first''))"
    "bindable (pi_user_id (sample_post PNone (Some 7) ''Ola'' ''second''))"
    by (simp_all add: sample_post_def fits64_opt_def fits64_def bindable_def)
  have f: "pi_post_number (sample_post PNone (Some 7) ''Jan'' ''first'') = Some 7"
    "pi_content (sample_post PNone (Some 7) ''Jan'' ''first'') = Some ''first''"
    "pi_content (sample_post PNone (Some 7) ''Ola'' ''second'') = Some ''second''"
    by (simp_all add: sample_post_def)
  show ?thesis
    using a s(1,2) null_thread_posts_both_stored [OF a s, of TextV sample_clock sample_clock]
    unfolding f e by simp
qed

subsection \<open>Users: the first row of a username stays\<close>

text \<open>
  C8. Upserting a user whose username already has its row returns normally and leaves
  the users table as it was: still one row for the username, with every field as first
  written.
\<close>

theorem user_upsert_first_write_wins:
  assumes "connected st" "fits64_opt (ui_posts_count item)"
      and "ui_username item = Some n"
      and "filter (\<lambda>r. u_username r = Some n) (users st) = [row]"
  shows "\<exists>st'. save_user now item st = Done st' \<and> users st' = users st
              \<and> filter (\<lambda>r. u_username r = Some n) (users st') = [row]"
proof -
  have "row \<in> set (filter (\<lambda>r. u_username r = Some n) (users st))" using assms(4) by simp
  then have "list_ex (\<lambda>r. u_username r = Some n) (users st)" by (auto simp: list_ex_iff)
  then have c: "unique_conflict u_username (ui_username item) (users st)"
    using assms(3) by (simp add: unique_conflict_def)
  show ?thesis using assms c
    by (auto simp add: save_user_def Let_def split: option.splits)
qed

theorem user_upsert_first_write_wins_witness:
  "\<exists>st'. save_user sample_clock (sample_user ''Jan'' (Some ''K''))
            (final (save_user sample_clock (sample_user ''Jan'' (Some ''M'')) new_pipeline)) = Done st'
       \<and> map (\<lambda>r. (u_id r, u_username r, u_gender r)) (users st') = [(1, Some ''Jan'', Some ''M'')]"
proof -
  let ?st = "final (save_user sample_clock (sample_user ''Jan'' (Some ''M'')) new_pipeline)"
  let ?row = "\<lparr>u_id = 1, u_username = Some ''Jan'', u_join_date = None, u_posts_count = None,
               u_religion = None, u_gender = Some ''M'', u_localization = None,
               u_created_at = ''2024-05-01T12:00:00'', u_updated_at = ''2024-05-01T12:00:00''\<rparr>"
  have u: "users ?st = [?row]" by (simp add: eval_defs)
  have a: "connected ?st" by (simp add: eval_defs)
  have b: "fits64_opt (ui_posts_count (sample_user ''Jan'' (Some ''K'')))"
    by (simp add: eval_defs)
  have c: "ui_username (sample_user ''Jan'' (Some ''K'')) = Some ''Jan''"
    by (simp add: sample_user_def)
  have d: "filter (\<lambda>r. u_username r = Some ''Jan'') (users ?st) = [?row]"
    unfolding u by simp
  from user_upsert_first_write_wins [OF a b c d, of sample_clock]
  obtain st' where "save_user sample_clock (sample_user ''Jan'' (Some ''K'')) ?st = Done st'"
    "users st' = users ?st" by blast
  then show ?thesis unfolding u by simp
qed

subsection \<open>Sections: one row for a URL\<close>

lemma save_section_existing:
  assumes "connected st" "bindable (si_forum_id item)" "si_url item = Some u" "u \<noteq> []"
      and "find (\<lambda>r. s_url r = Some u) (sections st) = Some r0"
  shows "\<exists>st'. save_section now item st = Done st' \<and> sections st' = sections st
           \<and> last_insert_rowid st' = last_insert_rowid st \<and> connected st'
           \<and> section_url_to_id st' u
               = Some (if last_insert_rowid st \<noteq> 0 then last_insert_rowid st else s_id r0)"
  using assms find_Some_ex [OF assms(5)]
  by (simp add: save_section_def Let_def unique_conflict_def select_id_def)

lemma save_section_fresh:
  assumes "connected st" "bindable (si_forum_id item)" "si_url item = Some u" "u \<noteq> []"
      and "\<not> list_ex (\<lambda>r. s_url r = Some u) (sections st)"
  shows "\<exists>st' row. save_section now item st = Done st' \<and> sections st' = sections st @ [row]
           \<and> s_url row = Some u \<and> last_insert_rowid st' = s_id row \<and> connected st'
           \<and> section_url_to_id st' u = Some (s_id row)"
  using assms
  by (simp add: save_section_def Let_def unique_conflict_def select_id_def find_append_fresh)

text \<open>
  \<open>_save_section\<close> run twice, one call after the other, with the same non-empty URL, on
  a table with at most one row for the URL: both calls return normally and the table
  then holds exactly one row for the URL. The two calls cache the same id, but it is
  the id of the row only when the URL was new to the table or the connection had
  inserted nothing before; otherwise it is what \<open>cursor.lastrowid\<close> read, the rowid of
  the connection's last insert.
\<close>

lemma save_section_twice:
  assumes "connected st" "bindable (si_forum_id ia)" "bindable (si_forum_id ib)"
      and "si_url ia = Some u" "si_url ib = Some u" "u \<noteq> []"
      and "length (filter (\<lambda>r. s_url r = Some u) (sections st)) \<le> 1"
  shows "\<exists>sta stb row k.
           save_section na ia st = Done sta \<and> save_section nb ib sta = Done stb
         \<and> filter (\<lambda>r. s_url r = Some u) (sections stb) = [row]
         \<and> section_url_to_id sta u = Some k \<and> section_url_to_id stb u = Some k
         \<and> k = (if list_ex (\<lambda>r. s_url r = Some u) (sections st) \<and> last_insert_rowid st \<noteq> 0
                then last_insert_rowid st else s_id row)"
proof (cases "list_ex (\<lambda>r. s_url r = Some u) (sections st)")
  case True
  then obtain r0 where r0: "find (\<lambda>r. s_url r = Some u) (sections st) = Some r0"
    using find_ex by blast
  from True have "filter (\<lambda>r. s_url r = Some u) (sections st) \<noteq> []"
    by (auto simp: list_ex_iff filter_empty_conv)
  with assms(7) obtain row where row: "filter (\<lambda>r. s_url r = Some u) (sections st) = [row]"
    by (cases "filter (\<lambda>r. s_url r = Some u) (sections st)") auto
  from find_filter_single [OF r0 row] have eq: "r0 = row" .
  from save_section_existing [OF assms(1,2,4,6) r0, of na] obtain sta where 1:
    "save_section na ia st = Done sta" "sections sta = sections st"
    "last_insert_rowid sta = last_insert_rowid st" "connected sta"
    "section_url_to_id sta u = Some (if last_insert_rowid st \<noteq> 0 then last_insert_rowid st else s_id r0)"
    by blast
  from r0 1(2) have r1: "find (\<lambda>r. s_url r = Some u) (sections sta) = Some r0" by simp
  from save_section_existing [OF 1(4) assms(3,5,6) r1, of nb] obtain stb where 2:
    "save_section nb ib sta = Done stb" "sections stb = sections sta"
    "section_url_to_id stb u = Some (if last_insert_rowid sta \<noteq> 0 then last_insert_rowid sta else s_id r0)"
    by blast
  show ?thesis using 1 2 row True eq by simp
next
  case False
  then have e: "filter (\<lambda>r. s_url r = Some u) (sections st) = []"
    by (auto simp: list_ex_iff filter_empty_conv)
  from save_section_fresh [OF assms(1,2,4,6) False, of na] obtain sta row where 1:
    "save_section na ia st = Done sta" "sections sta = sections st @ [row]" "s_url row = Some u"
    "last_insert_rowid sta = s_id row" "connected sta" "section_url_to_id sta u = Some (s_id row)"
    by blast
  from False 1(2,3) have r1: "find (\<lambda>r. s_url r = Some u) (sections sta) = Some row"
    by (simp add: find_append_fresh)
  from save_section_existing [OF 1(5) assms(3,5,6) r1, of nb] obtain stb where 2:
    "save_section nb ib sta = Done stb" "sections stb = sections sta"
    "section_url_to_id stb u = Some (if last_insert_rowid sta \<noteq> 0 then last_insert_rowid sta else s_id row)"
    by blast
  show ?thesis using 1 2 e False by simp
qed

text \<open>
  C6, where the code departs from the claim. Three section entities are saved into an
  empty store: one for the URL \<open>f=3\<close>, one for the URL \<open>f=4\<close>, and one for \<open>f=3\<close> again.
  The table holds one row for each URL, with ids 1 and 2. The first upsert caches id 1
  for \<open>f=3\<close>; the third is ignored by \<open>INSERT OR IGNORE\<close>, \<open>cursor.lastrowid\<close> then
  reads the rowid of the connection's last insert, and the cache maps \<open>f=3\<close> to 2, the
  id of the other section. A thread that names its section by the URL \<open>f=3\<close> is then
  stored under section 2.
\<close>

theorem repeated_section_gets_stale_id:
  "map (\<lambda>r. (s_id r, s_url r))
     (sections (run aff
        [(now, Section (sample_section ''Wiara'' ''http://f/viewforum.php?f=3'')),
         (now, Section (sample_section ''Biblia'' ''http://f/viewforum.php?f=4'')),
         (now, Section (sample_section ''Wiara'' ''http://f/viewforum.php?f=3''))]
        new_pipeline))
     = [(1, Some ''http://f/viewforum.php?f=3''), (2, Some ''http://f/viewforum.php?f=4'')]
   \<and> section_url_to_id
       (run aff [(now, Section (sample_section ''Wiara'' ''http://f/viewforum.php?f=3''))] new_pipeline)
       ''http://f/viewforum.php?f=3'' = Some 1
   \<and> section_url_to_id
       (run aff
          [(now, Section (sample_section ''Wiara'' ''http://f/viewforum.php?f=3'')),
           (now, Section (sample_section ''Biblia'' ''http://f/viewforum.php?f=4'')),
           (now, Section (sample_section ''Wiara'' ''http://f/viewforum.php?f=3''))]
          new_pipeline)
       ''http://f/viewforum.php?f=3'' = Some 2
   \<and> map (\<lambda>r. (t_url r, t_section_id r))
       (threads (run aff
          [(now, Section (sample_section ''Wiara'' ''http://f/viewforum.php?f=3'')),
           (now, Section (sample_section ''Biblia'' ''http://f/viewforum.php?f=4'')),
           (now, Section (sample_section ''Wiara'' ''http://f/viewforum.php?f=3'')),
           (now, Thread ((sample_thread None ''http://f/viewtopic.php?t=42'')
                           \<lparr>ti_section_id := PStr ''http://f/viewforum.php?f=3''\<rparr>))]
          new_pipeline))
     = [(Some ''http://f/viewtopic.php?t=42'', IntV 2)]"
  by (simp add: eval_defs)

subsection \<open>Users and posts: the id a post gets for its author\<close>

text \<open>
  When the user is new to the store, the post that follows it gets the id of the row
  that the user upsert has just inserted.
\<close>

lemma save_user_fresh:
  assumes "connected st" "fits64_opt (ui_posts_count item)" "ui_username item = Some n" "n \<noteq> []"
      and "\<not> list_ex (\<lambda>r. u_username r = Some n) (users st)"
  shows "\<exists>st' row. save_user now item st = Done st' \<and> users st' = users st @ [row]
           \<and> u_username row = Some n \<and> connected st'
           \<and> user_name_to_id st' n = Some (u_id row)"
  using assms
  by (simp add: save_user_def Let_def unique_conflict_def select_id_def find_append_fresh)

lemma new_user_then_post:
  assumes "connected st" "fits64_opt (ui_posts_count item)" "ui_username item = Some n" "n \<noteq> []"
      and "\<not> list_ex (\<lambda>r. u_username r = Some n) (users st)"
      and "pi_username p = Some n" "pi_user_id p = PNone"
      and "normalize_thread_id (pi_thread_id p) = Inr t" "bindable t"
      and "fits64_opt (pi_post_number p)"
  shows "\<exists>sta stb urow kept prow.
           save_user na item st = Done sta \<and> users sta = users st @ [urow]
         \<and> u_username urow = Some n
         \<and> save_post aff nb p sta = Done stb \<and> posts stb = kept @ [prow]
         \<and> p_user_id prow = IntV (u_id urow)"
proof -
  from save_user_fresh [OF assms(1-5), of na] obtain sta urow where a:
    "save_user na item st = Done sta" "users sta = users st @ [urow]" "u_username urow = Some n"
    "connected sta" "user_name_to_id sta n = Some (u_id urow)" by blast
  have "\<exists>stb kept prow. save_post aff nb p sta = Done stb \<and> posts stb = kept @ [prow]
          \<and> p_user_id prow = IntV (u_id urow)"
    using a(4,5) assms(4,6-10)
    by (simp add: save_post_def resolve_user_id_def truthy_def truthy_str_def bindable_def
        bind_def Let_def)
  with a show ?thesis by blast
qed

text \<open>
  C7, where the code departs from the claim. A thread page with three posts, by Jan, by
  Bob and by Jan again, each preceded by the user entity of its author, saved into an
  empty store. The third user upsert is ignored by \<open>INSERT OR IGNORE\<close>, and
  \<open>cursor.lastrowid\<close> then reads the rowid of the connection's last insert, which is
  the second post's: the cache maps Jan to 2, and Jan's second post is stored with
  user id 2, the id of Bob.
\<close>

theorem repeated_user_gets_stale_id:
  "map (\<lambda>r. (u_id r, u_username r))
     (users (run aff
        [(now, User (sample_user ''Jan'' None)), (now, Post (sample_post (PInt 42) (Some 1) ''Jan'' ''a'')),
         (now, User (sample_user ''Bob'' None)), (now, Post (sample_post (PInt 42) (Some 2) ''Bob'' ''b'')),
         (now, User (sample_user ''Jan'' None)), (now, Post (sample_post (PInt 42) (Some 3) ''Jan'' ''c''))]
        new_pipeline))
     = [(1, Some ''Jan''), (2, Some ''Bob'')]
   \<and> map (\<lambda>q. (p_username q, p_user_id q))
     (posts (run aff
        [(now, User (sample_user ''Jan'' None)), (now, Post (sample_post (PInt 42) (Some 1) ''Jan'' ''a'')),
         (now, User (sample_user ''Bob'' None)), (now, Post (sample_post (PInt 42) (Some 2) ''Bob'' ''b'')),
         (now, User (sample_user ''Jan'' None)), (now, Post (sample_post (PInt 42) (Some 3) ''Jan'' ''c''))]
        new_pipeline))
     = [(Some ''Jan'', IntV 1), (Some ''Bob'', IntV 2), (Some ''Jan'', IntV 2)]"
  by (simp add: eval_defs)

subsection \<open>Threads: the section of a thread is never null\<close>

lemma resolve_section_missing:
  assumes "ti_section_id item = PNone" "\<not> truthy_str (ti_section_url item)"
  shows "resolve_section now item st = (PNone, st)"
  using assms by (auto simp: resolve_section_def truthy_def truthy_str_def split: option.splits)

lemma resolve_section_unknown:
  assumes "ti_section_id item = PNone" "ti_section_url item = Some u" "u \<noteq> []"
      and "\<not> list_ex (\<lambda>r. s_url r = Some u) (sections st)"
  shows "\<exists>s st1. resolve_section now item st = (PInt (s_id s), st1)
           \<and> sections st1 = sections st @ [s] \<and> s_forum_id s = None \<and> s_url s = Some u
           \<and> s_title s = ti_section_title item
           \<and> threads st1 = threads st \<and> seq_threads st1 = seq_threads st
           \<and> connected st1 = connected st"
proof -
  have "find (\<lambda>r. s_url r = Some u) (sections st) = None"
    using assms(4) by (simp add: find_None_iff list_ex_iff)
  then show ?thesis using assms(1-3)
    by (simp add: resolve_section_def truthy_def select_id_def Let_def)
qed

lemma resolve_section_found:
  assumes "ti_section_id item = PNone" "ti_section_url item = Some u" "u \<noteq> []"
      and "find (\<lambda>r. s_url r = Some u) (sections st) = Some s"
  shows "\<exists>st1. resolve_section now item st = (PInt (s_id s), st1)
           \<and> sections st1 = sections st
           \<and> threads st1 = threads st \<and> seq_threads st1 = seq_threads st
           \<and> connected st1 = connected st"
  using assms by (simp add: resolve_section_def truthy_def select_id_def Let_def)

lemma find_row: "find P xs = Some r \<Longrightarrow> P r \<and> list_ex (\<lambda>x. x = r) xs"
  by (induction xs) (auto split: if_splits)

text \<open>
  C1, as the code has it. A thread with no section id and with a section URL is saved
  without an error, and its row is inserted with the id of the section of that URL,
  never with a null section reference: the section is the first stored one with the
  URL, and when no section has the URL a minimal section with no forum is inserted for
  it first.
\<close>

theorem thread_upsert_unresolved_section:
  assumes "connected st" "ti_section_id item = PNone"
      and "ti_section_url item = Some u" "u \<noteq> []"
      and "fits64_opt (ti_replies item)" "fits64_opt (ti_views item)"
      and "\<not> unique_conflict t_url (ti_url item) (threads st)"
  shows "\<exists>st' s t.
           save_thread aff now item st = Done st'
         \<and> threads st' = threads st @ [t] \<and> t_url t = ti_url item
         \<and> t_section_id t = IntV (s_id s) \<and> s_url s = Some u
         \<and> (if unique_conflict s_url (Some u) (sections st)
            then sections st' = sections st
                 \<and> find (\<lambda>r. s_url r = Some u) (sections st) = Some s
            else sections st' = sections st @ [s] \<and> s_forum_id s = None
                 \<and> s_title s = ti_section_title item)"
proof (cases "list_ex (\<lambda>r. s_url r = Some u) (sections st)")
  case True
  from find_ex [OF True] obtain s where s:
    "find (\<lambda>r. s_url r = Some u) (sections st) = Some s" "s_url s = Some u" by blast
  from find_row [OF s(1)] have ex: "list_ex (\<lambda>r. s_id r = s_id s) (sections st)"
    by (auto simp: list_ex_iff)
  from resolve_section_found [OF assms(2-4) s(1), of now] obtain st1 where r:
    "resolve_section now item st = (PInt (s_id s), st1)" "sections st1 = sections st"
    "threads st1 = threads st" "seq_threads st1 = seq_threads st" "connected st1 = connected st"
    by blast
  have "\<exists>st' t. save_thread aff now item st = Done st'
          \<and> threads st' = threads st @ [t] \<and> t_url t = ti_url item
          \<and> t_section_id t = IntV (s_id s) \<and> sections st' = sections st"
    using assms(1,2,5-7) r ex
    by (auto simp: save_thread_def bindable_def bind_def fk_ok_def Let_def split: option.splits)
  then show ?thesis using True s by (auto simp: unique_conflict_def)
next
  case False
  from resolve_section_unknown [OF assms(2-4) False, of now] obtain s st1 where r:
    "resolve_section now item st = (PInt (s_id s), st1)" "sections st1 = sections st @ [s]"
    "s_forum_id s = None" "s_url s = Some u" "s_title s = ti_section_title item"
    "threads st1 = threads st" "seq_threads st1 = seq_threads st" "connected st1 = connected st"
    by blast
  have "\<exists>st' t. save_thread aff now item st = Done st'
          \<and> threads st' = threads st @ [t] \<and> t_url t = ti_url item
          \<and> t_section_id t = IntV (s_id s) \<and> sections st' = sections st @ [s]"
    using assms(1,2,5-7) r
    by (auto simp: save_thread_def bindable_def bind_def fk_ok_def Let_def split: option.splits)
  then show ?thesis using False r(3-5) by (auto simp: unique_conflict_def)
qed

theorem thread_upsert_unresolved_section_witness:
  "(\<exists>st' s t.
       save_thread TextV sample_clock
         (sample_thread (Some ''http://f/viewforum.php?f=3'') ''http://f/viewtopic.php?t=42'')
         new_pipeline = Done st'
     \<and> sections st' = [s] \<and> s_forum_id s = None \<and> s_url s = Some ''http://f/viewforum.php?f=3''
     \<and> threads st' = [t] \<and> t_section_id t = IntV (s_id s)
     \<and> t_url t = Some ''http://f/viewtopic.php?t=42'')
   \<and> (\<exists>st' s t.
       save_thread TextV sample_clock
         (sample_thread (Some ''http://f/viewforum.php?f=3'') ''http://f/viewtopic.php?t=42'')
         (final (save_section sample_clock (sample_section ''Wiara'' ''http://f/viewforum.php?f=3'')
                   new_pipeline)) = Done st'
     \<and> sections st' = [s] \<and> s_title s = Some ''Wiara'' \<and> s_url s = Some ''http://f/viewforum.php?f=3''
     \<and> threads st' = [t] \<and> t_section_id t = IntV (s_id s)
     \<and> t_url t = Some ''http://f/viewtopic.php?t=42'')"
proof -
  let ?item = "sample_thread (Some ''http://f/viewforum.php?f=3'') ''http://f/viewtopic.php?t=42''"
  let ?st = "final (save_section sample_clock (sample_section ''Wiara'' ''http://f/viewforum.php?f=3'')
                   new_pipeline)"
  let ?row = "\<lparr>s_id = 1, s_forum_id = None, s_title = Some ''Wiara'',
               s_url = Some ''http://f/viewforum.php?f=3'',
               s_created_at = ''2024-05-01T12:00:00'', s_updated_at = ''2024-05-01T12:00:00''\<rparr>"
  have a: "connected new_pipeline" "connected ?st" by (simp_all add: eval_defs)
  have e: "sections new_pipeline = []" "threads new_pipeline = []"
    "sections ?st = [?row]" "threads ?st = []"
    by (simp_all add: eval_defs)
  have b: "ti_section_id ?item = PNone"
    "ti_section_url ?item = Some ''http://f/viewforum.php?f=3''"
    "''http://f/viewforum.php?f=3'' \<noteq> []"
    "fits64_opt (ti_replies ?item)" "fits64_opt (ti_views ?item)"
    by (simp_all add: sample_thread_def fits64_opt_def fits64_def)
  have c: "\<not> unique_conflict t_url (ti_url ?item) (threads new_pipeline)"
    "\<not> unique_conflict t_url (ti_url ?item) (threads ?st)"
    unfolding e by (simp_all add: unique_conflict_def sample_thread_def)
  have d: "ti_url ?item = Some ''http://f/viewtopic.php?t=42''"
    by (simp add: sample_thread_def)
  from thread_upsert_unresolved_section [where st = new_pipeline and aff = TextV
        and now = sample_clock and item = ?item, OF a(1) b c(1)]
  have 1: "\<exists>st' s t.
       save_thread TextV sample_clock ?item new_pipeline = Done st'
     \<and> sections st' = [s] \<and> s_forum_id s = None \<and> s_url s = Some ''http://f/viewforum.php?f=3''
     \<and> threads st' = [t] \<and> t_section_id t = IntV (s_id s)
     \<and> t_url t = Some ''http://f/viewtopic.php?t=42''"
    unfolding e d by (auto simp: unique_conflict_def split: if_splits)
  from thread_upsert_unresolved_section [where st = ?st and aff = TextV
        and now = sample_clock and item = ?item, OF a(2) b c(2)]
  have 2: "\<exists>st' s t.
       save_thread TextV sample_clock ?item ?st = Done st'
     \<and> sections st' = [s] \<and> s_title s = Some ''Wiara'' \<and> s_url s = Some ''http://f/viewforum.php?f=3''
     \<and> threads st' = [t] \<and> t_section_id t = IntV (s_id s)
     \<and> t_url t = Some ''http://f/viewtopic.php?t=42''"
    unfolding e d by (auto simp: unique_conflict_def split: if_splits)
  from 1 2 show ?thesis by blast
qed

text \<open>
  The claim C1 as the specification words it fails both ways on an empty store: a
  thread with an unknown section URL is stored with the id of the section made for it,
  not with a null reference, and a thread with neither section id nor section URL is
  not stored at all (only the rowid counter moves).
\<close>

theorem thread_upsert_null_section_counterexample:
  "map t_section_id (threads (final (save_thread TextV sample_clock
         (sample_thread (Some ''http://f/viewforum.php?f=3'') ''http://f/viewtopic.php?t=42'')
         new_pipeline)))
     = [IntV 1]
   \<and> save_thread TextV sample_clock (sample_thread None ''http://f/viewtopic.php?t=42'') new_pipeline
     = Done (new_pipeline\<lparr>seq_threads := 1\<rparr>)
   \<and> threads (new_pipeline\<lparr>seq_threads := 1\<rparr>) = []"
  by (simp add: eval_defs)

text \<open>
  A thread with neither section id nor section URL, which is what
  \<open>WiaraSpider._extract_thread_data\<close> emits, is dropped without an error: the \<open>NULL\<close>
  section makes \<open>INSERT OR IGNORE\<close> skip the row. When the connection has inserted a row
  before, \<open>cursor.lastrowid\<close> still reads that row's id, and the method caches it for the
  thread's URL as if it were the id of a stored thread.
\<close>

lemma thread_without_section_dropped:
  assumes "connected st" "ti_section_id item = PNone" "\<not> truthy_str (ti_section_url item)"
      and "fits64_opt (ti_replies item)" "fits64_opt (ti_views item)"
      and "ti_url item = Some w" "w \<noteq> []" "last_insert_rowid st \<noteq> 0"
  shows "\<exists>st'. save_thread aff now item st = Done st'
           \<and> threads st' = threads st \<and> sections st' = sections st
           \<and> thread_url_to_id st' w = Some (last_insert_rowid st)"
  using assms resolve_section_missing [OF assms(2,3), of now st]
  by (simp add: save_thread_def bindable_def bind_def Let_def)

subsection \<open>Running a crawl twice\<close>

lemma save_forum_grows: "grows st (final (save_forum now i st))"
  by (simp add: save_forum_def final_def grows_def Let_def split: option.splits)

lemma save_section_grows: "grows st (final (save_section now i st))"
  by (simp add: save_section_def final_def grows_def Let_def split: option.splits)

lemma save_user_grows: "grows st (final (save_user now i st))"
  by (simp add: save_user_def final_def grows_def Let_def split: option.splits)

lemma save_post_grows: "grows st (final (save_post aff now i st))"
  by (simp add: save_post_def final_def grows_def Let_def split: option.splits sum.splits)

lemma resolve_section_grows:
  "resolve_section now i st = (v, st1) \<Longrightarrow>
     connected st1 = connected st \<and> (\<exists>e. sections st1 = sections st @ e)
     \<and> threads st1 = threads st \<and> users st1 = users st \<and> posts st1 = posts st
     \<and> forums st1 = forums st \<and> seq_threads st1 = seq_threads st"
  by (auto simp: resolve_section_def Let_def split: option.splits if_splits pyval.splits)

lemma save_thread_grows: "grows st (final (save_thread aff now i st))"
proof -
  obtain v st1 where r: "resolve_section now i st = (v, st1)" by (cases "resolve_section now i st")
  from resolve_section_grows [OF r] show ?thesis
    by (auto simp add: save_thread_def r final_def grows_def Let_def split: option.splits)
qed

lemma process_item_grows: "grows st (final (process_item aff now it st))"
proof (cases "connected st")
  case False
  then show ?thesis by (simp add: process_item_def final_def grows_def)
next
  case True
  then show ?thesis
    by (cases it)
      (simp_all add: process_item_def save_forum_grows save_section_grows save_thread_grows
        save_user_grows save_post_grows, simp add: final_def grows_def)
qed

lemma unique_conflict_append:
  "unique_conflict col v xs \<Longrightarrow> unique_conflict col v (xs @ e)"
  by (auto simp: unique_conflict_def split: option.splits)

lemma save_forum_posts: "posts (final (save_forum now i st)) = posts st"
  by (simp add: save_forum_def final_def Let_def split: option.splits)

lemma save_section_posts: "posts (final (save_section now i st)) = posts st"
  by (simp add: save_section_def final_def Let_def split: option.splits)

lemma save_user_posts: "posts (final (save_user now i st)) = posts st"
  by (simp add: save_user_def final_def Let_def split: option.splits)

lemma save_thread_posts: "posts (final (save_thread aff now i st)) = posts st"
proof -
  obtain v st1 where r: "resolve_section now i st = (v, st1)" by (cases "resolve_section now i st")
  from resolve_section_grows [OF r] show ?thesis
    by (auto simp add: save_thread_def r final_def Let_def split: option.splits)
qed

lemma save_post_posts:
  "posts (final (save_post aff now i st)) = posts st
   \<or> (\<exists>tv pn row. posts (final (save_post aff now i st))
          = filter (\<lambda>q. \<not> post_conflict tv pn q) (posts st) @ [row]
        \<and> p_thread_id row = tv \<and> p_post_number row = pn)"
  by (simp add: save_post_def final_def Let_def split: sum.splits)

lemma replace_count:
  assumes "fst k \<noteq> Null" "length (filter (keyed k) xs) = 1"
      and "p_thread_id row = tv" "p_post_number row = pn"
  shows "length (filter (keyed k) (filter (\<lambda>q. \<not> post_conflict tv pn q) xs @ [row])) = 1"
proof (cases "keyed k row")
  case True
  then have "filter (keyed k) (filter (\<lambda>q. \<not> post_conflict tv pn q) xs) = []"
    using assms(1,3,4) by (auto simp: filter_empty_conv keyed_def post_conflict_def)
  with True show ?thesis by simp
next
  case False
  have "filter (keyed k) (filter (\<lambda>q. \<not> post_conflict tv pn q) xs) = filter (keyed k) xs"
    using False assms(3,4) by (auto simp: keyed_def post_conflict_def intro!: filter_cong)
  with False assms(2) show ?thesis by simp
qed

lemma process_item_count:
  assumes "fst k \<noteq> Null" "length (filter (keyed k) (posts st)) = 1"
  shows "length (filter (keyed k) (posts (final (process_item aff now it st)))) = 1"
proof (cases "connected st")
  case False
  then show ?thesis using assms by (simp add: process_item_def final_def)
next
  case True
  show ?thesis
  proof (cases it)
    case (Post i)
    have eq: "final (process_item aff now it st) = final (save_post aff now i st)"
      using True Post by (simp add: process_item_def)
    from save_post_posts [of aff now i st] show ?thesis
    proof
      assume "posts (final (save_post aff now i st)) = posts st"
      then show ?thesis using assms eq by simp
    next
      assume "\<exists>tv pn row. posts (final (save_post aff now i st))
          = filter (\<lambda>q. \<not> post_conflict tv pn q) (posts st) @ [row]
        \<and> p_thread_id row = tv \<and> p_post_number row = pn"
      then obtain tv pn row where p:
        "posts (final (save_post aff now i st)) = filter (\<lambda>q. \<not> post_conflict tv pn q) (posts st) @ [row]"
        "p_thread_id row = tv" "p_post_number row = pn" by blast
      show ?thesis unfolding eq p(1) by (rule replace_count [OF assms p(2,3)])
    qed
  qed (use assms True in \<open>simp_all add: process_item_def save_forum_posts save_section_posts
        save_thread_posts save_user_posts\<close>, simp add: final_def)
qed

lemma post_key_not_null: "post_key aff i = Some k \<Longrightarrow> fst k \<noteq> Null"
  by (auto simp: post_key_def split: sum.splits option.splits if_splits)

lemma settled_mono:
  assumes "settled aff it st"
  shows "settled aff it (final (process_item aff now' it' st))"
proof -
  let ?st = "final (process_item aff now' it' st)"
  from process_item_grows [of st aff now' it'] obtain e1 e2 e3 where g:
    "sections ?st = sections st @ e1" "threads ?st = threads st @ e2" "users ?st = users st @ e3"
    by (auto simp: grows_def)
  show ?thesis
  proof (cases it)
    case (Post i)
    show ?thesis
    proof (cases "post_key aff i")
      case None
      then show ?thesis using Post by (simp add: settled_def)
    next
      case (Some k)
      from post_key_not_null [OF Some] process_item_count [of k st aff now' it']
      show ?thesis using assms Post Some by (auto simp: settled_def)
    qed
  qed (use assms g in \<open>auto simp: settled_def unique_conflict_append split: if_splits\<close>)
qed


lemma unique_conflict_last: "col row = Some u \<Longrightarrow> unique_conflict col (Some u) (xs @ [row])"
  by (simp add: unique_conflict_def)

lemma save_forum_tables:
  "sections (final (save_forum now i st)) = sections st
   \<and> threads (final (save_forum now i st)) = threads st
   \<and> users (final (save_forum now i st)) = users st
   \<and> length (forums (final (save_forum now i st)))
       = length (forums st) + (if connected st \<and> fi_spider_name i \<noteq> None then 1 else 0)"
  by (simp add: save_forum_def final_def Let_def split: option.splits)

lemma save_section_frame:
  "threads (final (save_section now i st)) = threads st
   \<and> users (final (save_section now i st)) = users st
   \<and> forums (final (save_section now i st)) = forums st"
  by (simp add: save_section_def final_def Let_def split: option.splits)

lemma save_section_ignored:
  "unique_conflict s_url (si_url i) (sections st) \<or> \<not> bindable (si_forum_id i) \<Longrightarrow>
   sections (final (save_section now i st)) = sections st"
  by (auto simp add: save_section_def final_def Let_def split: option.splits)

lemma save_section_stored:
  "connected st \<Longrightarrow> bindable (si_forum_id i) \<Longrightarrow>
   \<not> unique_conflict s_url (si_url i) (sections st) \<Longrightarrow>
   \<exists>row. sections (final (save_section now i st)) = sections st @ [row] \<and> s_url row = si_url i"
  by (simp add: save_section_def final_def Let_def split: option.splits)

lemma save_user_frame:
  "threads (final (save_user now i st)) = threads st
   \<and> sections (final (save_user now i st)) = sections st
   \<and> forums (final (save_user now i st)) = forums st"
  by (simp add: save_user_def final_def Let_def split: option.splits)

lemma save_user_ignored:
  "unique_conflict u_username (ui_username i) (users st) \<or> \<not> fits64_opt (ui_posts_count i) \<Longrightarrow>
   users (final (save_user now i st)) = users st"
  by (auto simp add: save_user_def final_def Let_def split: option.splits)

lemma save_user_stored:
  "connected st \<Longrightarrow> fits64_opt (ui_posts_count i) \<Longrightarrow>
   \<not> unique_conflict u_username (ui_username i) (users st) \<Longrightarrow>
   \<exists>row. users (final (save_user now i st)) = users st @ [row] \<and> u_username row = ui_username i"
  by (simp add: save_user_def final_def Let_def split: option.splits)

lemma save_thread_frame:
  assumes "resolve_section now i st = (v, st1)"
  shows "users (final (save_thread aff now i st)) = users st
       \<and> forums (final (save_thread aff now i st)) = forums st
       \<and> (connected st \<longrightarrow> sections (final (save_thread aff now i st)) = sections st1)"
  using resolve_section_grows [OF assms]
  by (simp add: save_thread_def assms final_def Let_def split: option.splits)

lemma save_thread_ignored:
  assumes "resolve_section now i st = (v, st1)"
      and "bind aff v = Null \<or> unique_conflict t_url (ti_url i) (threads st)
           \<or> \<not> (fits64_opt (ti_replies i) \<and> fits64_opt (ti_views i))"
  shows "threads (final (save_thread aff now i st)) = threads st"
  using resolve_section_grows [OF assms(1)] assms(2)
  by (auto simp add: save_thread_def assms(1) final_def Let_def split: option.splits)

lemma save_thread_stored:
  assumes "resolve_section now i st = (v, st1)" "connected st" "bindable (ti_section_id i)"
      and "fits64_opt (ti_replies i)" "fits64_opt (ti_views i)"
      and "bind aff v \<noteq> Null" "\<not> unique_conflict t_url (ti_url i) (threads st)"
      and "fk_ok (bind aff v) (sections st1)"
  shows "\<exists>row. threads (final (save_thread aff now i st)) = threads st @ [row] \<and> t_url row = ti_url i"
  using resolve_section_grows [OF assms(1)] assms(2-)
  by (simp add: save_thread_def assms(1) final_def Let_def split: option.splits)


lemma resolve_section_known:
  assumes "ti_section_id i = PNone" "ti_section_url i = Some u" "u \<noteq> []"
  shows "\<exists>k st1. resolve_section now i st = (PInt k, st1)
           \<and> list_ex (\<lambda>r. s_id r = k) (sections st1)
           \<and> unique_conflict s_url (Some u) (sections st1)
           \<and> (unique_conflict s_url (Some u) (sections st) \<longrightarrow> sections st1 = sections st)"
proof (cases "list_ex (\<lambda>r. s_url r = Some u) (sections st)")
  case True
  from find_ex [OF True] obtain r0 where r0: "find (\<lambda>r. s_url r = Some u) (sections st) = Some r0"
    by blast
  then have "r0 \<in> set (sections st)" by (auto simp: find_Some_iff)
  then have ex: "list_ex (\<lambda>r. s_id r = s_id r0) (sections st)" by (auto simp: list_ex_iff)
  have "\<exists>st1. resolve_section now i st = (PInt (s_id r0), st1) \<and> sections st1 = sections st"
    using assms r0 by (simp add: resolve_section_def truthy_def select_id_def Let_def)
  then show ?thesis using True ex by (auto simp: unique_conflict_def)
next
  case False
  then have "find (\<lambda>r. s_url r = Some u) (sections st) = None"
    by (simp add: find_None_iff list_ex_iff)
  then have "\<exists>st1 s. resolve_section now i st = (PInt (s_id s), st1)
      \<and> sections st1 = sections st @ [s] \<and> s_url s = Some u"
    using assms by (simp add: resolve_section_def truthy_def select_id_def Let_def)
  then show ?thesis using False by (auto simp: unique_conflict_def)
qed

lemma save_thread_settles:
  assumes "connected st" "ti_section_id i = PNone" "ti_url i = Some w"
  shows "settled aff (Thread i) (final (save_thread aff now i st))"
proof (cases "truthy_str (ti_section_url i)")
  case False
  then show ?thesis by (simp add: settled_def)
next
  case True
  then obtain u where u: "ti_section_url i = Some u" "u \<noteq> []"
    by (auto simp: truthy_str_def split: option.splits)
  from resolve_section_known [OF assms(2) u, of now st] obtain k st1 where r:
    "resolve_section now i st = (PInt k, st1)" "list_ex (\<lambda>r. s_id r = k) (sections st1)"
    "unique_conflict s_url (Some u) (sections st1)" by blast
  let ?st = "final (save_thread aff now i st)"
  from save_thread_frame [OF r(1), of aff] assms(1) have sec: "sections ?st = sections st1" by simp
  have thr: "unique_conflict t_url (ti_url i) (threads ?st)
             \<or> \<not> (fits64_opt (ti_replies i) \<and> fits64_opt (ti_views i))"
  proof (cases "unique_conflict t_url (ti_url i) (threads st)
                \<or> \<not> (fits64_opt (ti_replies i) \<and> fits64_opt (ti_views i))")
    case True
    with save_thread_ignored [OF r(1), of aff] show ?thesis by auto
  next
    case False
    then have f: "fits64_opt (ti_replies i)" "fits64_opt (ti_views i)"
      "\<not> unique_conflict t_url (ti_url i) (threads st)" by simp_all
    have b: "bindable (ti_section_id i)" "bind aff (PInt k) \<noteq> Null"
      "fk_ok (bind aff (PInt k)) (sections st1)"
      using assms(2) r(2) by (simp_all add: bindable_def bind_def fk_ok_def)
    from save_thread_stored [OF r(1) assms(1) b(1) f(1,2) b(2) f(3) b(3)]
    obtain row where row: "threads ?st = threads st @ [row]" "t_url row = ti_url i" by blast
    show ?thesis using assms(3) by (simp add: row unique_conflict_def)
  qed
  show ?thesis using True u sec r(3) thr by (simp add: settled_def)
qed


lemma step_settles:
  assumes "emitted it" "connected st"
  shows "settled aff it (final (process_item aff now it st))"
proof (cases it)
  case (Section i)
  let ?st = "final (save_section now i st)"
  from assms(1) Section obtain y where y: "si_url i = Some y" by (auto simp: emitted_def)
  have "unique_conflict s_url (Some y) (sections ?st) \<or> \<not> bindable (si_forum_id i)"
  proof (cases "unique_conflict s_url (si_url i) (sections st) \<or> \<not> bindable (si_forum_id i)")
    case True
    from save_section_ignored [OF True, of now] True y show ?thesis by auto
  next
    case False
    with save_section_stored [OF assms(2), of i now] obtain row where
      "sections ?st = sections st @ [row]" "s_url row = si_url i" by auto
    then show ?thesis using y by (simp add: unique_conflict_def)
  qed
  then show ?thesis using Section assms(2) y by (simp add: settled_def process_item_def)
next
  case (Thread i)
  from assms(1) Thread obtain w where "ti_section_id i = PNone" "ti_url i = Some w"
    by (auto simp: emitted_def)
  from save_thread_settles [OF assms(2) this, of aff now]
  show ?thesis using Thread assms(2) by (simp add: process_item_def)
next
  case (User i)
  let ?st = "final (save_user now i st)"
  from assms(1) User obtain y where y: "ui_username i = Some y" by (auto simp: emitted_def)
  have "unique_conflict u_username (Some y) (users ?st) \<or> \<not> fits64_opt (ui_posts_count i)"
  proof (cases "unique_conflict u_username (ui_username i) (users st) \<or> \<not> fits64_opt (ui_posts_count i)")
    case True
    from save_user_ignored [OF True, of now] True y show ?thesis by auto
  next
    case False
    with save_user_stored [OF assms(2), of i now] obtain row where
      "users ?st = users st @ [row]" "u_username row = ui_username i" by auto
    then show ?thesis using y by (simp add: unique_conflict_def)
  qed
  then show ?thesis using User assms(2) y by (simp add: settled_def process_item_def)
next
  case (Post i)
  show ?thesis
  proof (cases "post_key aff i")
    case None
    then show ?thesis using Post by (simp add: settled_def)
  next
    case (Some k)
    obtain tv n where k: "k = (tv, n)" by (cases k)
    show ?thesis
    proof (cases "bindable (pi_user_id i)")
      case False
      then show ?thesis using Post Some by (simp add: settled_def)
    next
      case True
      from save_post_keyed [OF assms(2) Some[unfolded k] True, of now]
      obtain st' row where "save_post aff now i st = Done st'"
        "filter (keyed (tv, n)) (posts st') = [row]" by blast
      then show ?thesis using Post Some k assms(2)
        by (simp add: settled_def process_item_def final_def)
    qed
  qed
qed (simp_all add: settled_def)


lemma save_post_frame:
  "sections (final (save_post aff now i st)) = sections st
   \<and> threads (final (save_post aff now i st)) = threads st
   \<and> users (final (save_post aff now i st)) = users st
   \<and> forums (final (save_post aff now i st)) = forums st"
  by (simp add: save_post_def final_def Let_def split: sum.splits)

lemma filter_no_conflict:
  "tv = Null \<or> pn = None \<Longrightarrow> filter (\<lambda>q. \<not> post_conflict tv pn q) xs = xs"
  by (auto simp: post_conflict_def)

lemma save_post_unkeyed:
  assumes "post_key aff i = None" "connected st"
  shows "length (posts (final (save_post aff now i st)))
           = length (posts st) + (if appended aff (Post i) then 1 else 0)"
proof (cases "normalize_thread_id (pi_thread_id i)")
  case (Inl e)
  then show ?thesis by (simp add: save_post_def final_def appended_def)
next
  case (Inr t)
  show ?thesis
  proof (cases "bindable t \<and> bindable (pi_user_id i) \<and> fits64_opt (pi_post_number i)")
    case False
    then show ?thesis using Inr assms(2)
      by (auto simp: save_post_def final_def appended_def)
  next
    case True
    with assms(1) Inr have n: "bind aff t = Null \<or> pi_post_number i = None"
      by (auto simp: post_key_def fits64_opt_def split: option.splits if_splits)
    from filter_no_conflict [OF n]
    have "posts (final (save_post aff now i st))
            = posts st @ [last (posts (final (save_post aff now i st)))]"
      using True Inr assms(2) by (simp add: save_post_def final_def Let_def)
    then have "length (posts (final (save_post aff now i st))) = length (posts st) + 1"
      by (metis length_append_singleton Suc_eq_plus1)
    then show ?thesis using True Inr n by (simp add: appended_def)
  qed
qed

lemma keyed_not_appended: "post_key aff i = Some k \<Longrightarrow> \<not> appended aff (Post i)"
  by (auto simp: post_key_def appended_def split: sum.splits option.splits if_splits)

lemma save_post_replaced:
  assumes "connected st" "post_key aff i = Some (tv, n)" "bindable (pi_user_id i)"
  shows "\<exists>row. posts (final (save_post aff now i st))
           = filter (\<lambda>q. \<not> post_conflict tv (Some n) q) (posts st) @ [row]"
proof -
  from post_keyD [OF assms(2)] obtain t where t:
    "normalize_thread_id (pi_thread_id i) = Inr t" "bindable t" "bind aff t = tv"
    "tv \<noteq> Null" "pi_post_number i = Some n" "fits64 n" by blast
  show ?thesis using assms(1,3) t
    by (simp add: save_post_def final_def fits64_opt_def Let_def)
qed

lemma save_post_unbindable:
  "\<not> bindable (pi_user_id i) \<Longrightarrow> posts (final (save_post aff now i st)) = posts st"
  by (simp add: save_post_def final_def Let_def split: sum.splits)

lemma settled_noop:
  assumes "settled aff it st" "emitted it" "connected st"
  shows "sections (final (process_item aff now it st)) = sections st
       \<and> threads (final (process_item aff now it st)) = threads st
       \<and> users (final (process_item aff now it st)) = users st
       \<and> length (posts (final (process_item aff now it st)))
           = length (posts st) + (if appended aff it then 1 else 0)
       \<and> length (forums (final (process_item aff now it st)))
           = length (forums st) + (if stored_forum it then 1 else 0)"
proof (cases it)
  case (Forum i)
  then show ?thesis using assms(3) save_forum_tables [of now i st] save_forum_posts [of now i st]
    by (simp add: process_item_def stored_forum_def appended_def)
next
  case (Section i)
  from assms(1) Section have "unique_conflict s_url (si_url i) (sections st) \<or> \<not> bindable (si_forum_id i)"
    by (simp add: settled_def)
  from save_section_ignored [OF this, of now] save_section_frame [of now i st]
    save_section_posts [of now i st]
  show ?thesis using Section assms(3) by (simp add: process_item_def stored_forum_def appended_def)
next
  case (Thread i)
  from assms(2) Thread have n: "ti_section_id i = PNone" by (simp add: emitted_def)
  have "sections (final (save_thread aff now i st)) = sections st
      \<and> threads (final (save_thread aff now i st)) = threads st"
  proof (cases "truthy_str (ti_section_url i)")
    case False
    from resolve_section_missing [OF n False]
    have r: "resolve_section now i st = (PNone, st)" .
    from save_thread_frame [OF r, of aff] save_thread_ignored [OF r, of aff] assms(3)
    show ?thesis by (simp add: bind_def)
  next
    case True
    then obtain u where u: "ti_section_url i = Some u" "u \<noteq> []"
      by (auto simp: truthy_str_def split: option.splits)
    from assms(1) Thread True u have c: "unique_conflict s_url (Some u) (sections st)"
      "unique_conflict t_url (ti_url i) (threads st)
        \<or> \<not> (fits64_opt (ti_replies i) \<and> fits64_opt (ti_views i))"
      by (auto simp: settled_def)
    from resolve_section_known [OF n u, of now st] c(1) obtain k st1 where r:
      "resolve_section now i st = (PInt k, st1)" "sections st1 = sections st" by auto
    from save_thread_frame [OF r(1), of aff] save_thread_ignored [OF r(1), of aff] assms(3) c(2) r(2)
    show ?thesis by auto
  qed
  moreover obtain v st1 where "resolve_section now i st = (v, st1)"
    by (cases "resolve_section now i st")
  from save_thread_frame [OF this, of aff]
  have "users (final (save_thread aff now i st)) = users st"
    "forums (final (save_thread aff now i st)) = forums st" by simp_all
  ultimately show ?thesis using Thread assms(3) save_thread_posts [of aff now i st]
    by (simp add: process_item_def stored_forum_def appended_def)
next
  case (User i)
  from assms(1) User have "unique_conflict u_username (ui_username i) (users st) \<or> \<not> fits64_opt (ui_posts_count i)"
    by (simp add: settled_def)
  from save_user_ignored [OF this, of now] save_user_frame [of now i st]
    save_user_posts [of now i st]
  show ?thesis using User assms(3) by (simp add: process_item_def stored_forum_def appended_def)
next
  case (Post i)
  have f: "final (process_item aff now it st) = final (save_post aff now i st)"
    "\<not> stored_forum it" using Post assms(3) by (simp_all add: process_item_def stored_forum_def)
  have "length (posts (final (save_post aff now i st)))
          = length (posts st) + (if appended aff (Post i) then 1 else 0)"
  proof (cases "post_key aff i")
    case None
    from save_post_unkeyed [OF None assms(3)] show ?thesis .
  next
    case (Some k)
    obtain tv n where k: "k = (tv, n)" by (cases k)
    from post_key_not_null [OF Some] k have nn: "tv \<noteq> Null" by simp
    from keyed_not_appended [OF Some] have na: "\<not> appended aff (Post i)" .
    show ?thesis
    proof (cases "bindable (pi_user_id i)")
      case False
      from save_post_unbindable [OF False] na show ?thesis by simp
    next
      case True
      with assms(1) Post Some k have one: "length (filter (keyed (tv, n)) (posts st)) = 1"
        by (simp add: settled_def)
      have "filter (\<lambda>q. post_conflict tv (Some n) q) (posts st) = filter (keyed (tv, n)) (posts st)"
        using nn by (auto simp: post_conflict_def keyed_def intro!: filter_cong)
      with one have "length (filter (\<lambda>q. post_conflict tv (Some n) q) (posts st)) = 1" by simp
      with sum_length_filter_compl [of "\<lambda>q. post_conflict tv (Some n) q" "posts st"]
      have "length (filter (\<lambda>q. \<not> post_conflict tv (Some n) q) (posts st)) + 1 = length (posts st)"
        by simp
      moreover from save_post_replaced [OF assms(3) Some[unfolded k] True, of now]
      obtain row where "posts (final (save_post aff now i st))
           = filter (\<lambda>q. \<not> post_conflict tv (Some n) q) (posts st) @ [row]" by blast
      ultimately show ?thesis using na by simp
    qed
  qed
  then show ?thesis using f Post save_post_frame [of aff now i st] by simp
next
  case Other
  then show ?thesis using assms(3)
    by (simp add: process_item_def final_def stored_forum_def appended_def)
qed

lemma process_item_connected: "connected (final (process_item aff now it st)) = connected st"
  using process_item_grows [of st aff now it] by (simp add: grows_def)

lemma run_connected: "connected (run aff xs st) = connected st"
proof (induction xs arbitrary: st)
  case Nil
  then show ?case by simp
next
  case (Cons x xs)
  obtain now it where x: "x = (now, it)" by (cases x)
  show ?case unfolding x by (simp add: Cons.IH process_item_connected)
qed

lemma settled_run: "settled aff it st \<Longrightarrow> settled aff it (run aff xs st)"
proof (induction xs arbitrary: st)
  case Nil
  then show ?case by simp
next
  case (Cons x xs)
  obtain now' it' where x: "x = (now', it')" by (cases x)
  from Cons.prems have "settled aff it (final (process_item aff now' it' st))"
    by (rule settled_mono)
  then have "settled aff it (run aff xs (final (process_item aff now' it' st)))"
    by (rule Cons.IH)
  then show ?case using x by simp
qed

lemma run_settles:
  "list_all emitted (map snd xs) \<Longrightarrow> connected st \<Longrightarrow>
   list_all (\<lambda>it. settled aff it (run aff xs st)) (map snd xs)"
proof (induction xs arbitrary: st)
  case Nil
  then show ?case by simp
next
  case (Cons x xs)
  obtain now it where x: "x = (now, it)" by (cases x)
  let ?st = "final (process_item aff now it st)"
  from Cons.prems x have e: "emitted it" "list_all emitted (map snd xs)" by simp_all
  have c: "connected ?st" using Cons.prems(2) by (simp add: process_item_connected)
  from step_settles [OF e(1) Cons.prems(2), of aff now]
  have "settled aff it (run aff xs ?st)" by (rule settled_run)
  moreover from Cons.IH [OF e(2) c] have "list_all (\<lambda>it. settled aff it (run aff xs ?st)) (map snd xs)" .
  ultimately show ?case using x by simp
qed

lemma settled_reopen: "settled aff it (reopen st) = settled aff it st"
proof -
  have t: "sections (reopen st) = sections st" "threads (reopen st) = threads st"
    "users (reopen st) = users st" "posts (reopen st) = posts st"
    by (simp_all add: reopen_def)
  show ?thesis unfolding settled_def t ..
qed

lemma rerun_noop:
  "list_all emitted (map snd ys) \<Longrightarrow> list_all (\<lambda>it. settled aff it st) (map snd ys) \<Longrightarrow>
   connected st \<Longrightarrow>
   sections (run aff ys st) = sections st \<and> threads (run aff ys st) = threads st
   \<and> users (run aff ys st) = users st
   \<and> length (posts (run aff ys st)) = length (posts st) + length (filter (appended aff) (map snd ys))
   \<and> length (forums (run aff ys st)) = length (forums st) + length (filter stored_forum (map snd ys))"
proof (induction ys arbitrary: st)
  case Nil
  then show ?case by simp
next
  case (Cons y ys)
  obtain now it where y: "y = (now, it)" by (cases y)
  let ?st = "final (process_item aff now it st)"
  from Cons.prems y have e: "emitted it" "list_all emitted (map snd ys)"
    and s: "settled aff it st" "list_all (\<lambda>it. settled aff it st) (map snd ys)" by simp_all
  have c: "connected ?st" using Cons.prems(3) by (simp add: process_item_connected)
  have s': "list_all (\<lambda>it. settled aff it ?st) (map snd ys)"
    using s(2) settled_mono [of aff _ st now it] by (simp add: list_all_iff)
  have r: "run aff (y # ys) st = run aff ys ?st" using y by simp
  have n: "length (filter stored_forum (map snd (y # ys)))
        = (if stored_forum it then 1 else 0) + length (filter stored_forum (map snd ys))"
    "length (filter (appended aff) (map snd (y # ys)))
        = (if appended aff it then 1 else 0) + length (filter (appended aff) (map snd ys))"
    using y by simp_all
  from settled_noop [OF s(1) e(1) Cons.prems(3), of now] Cons.IH [OF e(2) s' c]
  show ?case unfolding r n by simp
qed

text \<open>
  What a second run keeps. A crawl's entities, as the spiders emit them, are saved by
  one pipeline; a second pipeline, opened on the database the first left, saves the same
  entities again (the clock may read differently). The second run leaves the sections,
  threads and users tables exactly as the first left them. The posts table gains a row
  for every post that is stored under no key, and the forums table gains a row for
  every forum entity that is stored.
\<close>

lemma rerun_row_counts:
  assumes "list_all emitted (map snd xs)" "map snd ys = map snd xs" "connected st"
  shows "sections (run aff ys (reopen (run aff xs st))) = sections (run aff xs st)
       \<and> threads (run aff ys (reopen (run aff xs st))) = threads (run aff xs st)
       \<and> users (run aff ys (reopen (run aff xs st))) = users (run aff xs st)
       \<and> length (posts (run aff ys (reopen (run aff xs st))))
           = length (posts (run aff xs st)) + length (filter (appended aff) (map snd xs))
       \<and> length (forums (run aff ys (reopen (run aff xs st))))
           = length (forums (run aff xs st)) + length (filter stored_forum (map snd xs))"
proof -
  let ?st = "reopen (run aff xs st)"
  have t: "sections ?st = sections (run aff xs st)" "threads ?st = threads (run aff xs st)"
    "users ?st = users (run aff xs st)" "posts ?st = posts (run aff xs st)"
    "forums ?st = forums (run aff xs st)" "connected ?st"
    by (simp_all add: reopen_def)
  from run_settles [OF assms(1,3)] have "list_all (\<lambda>it. settled aff it ?st) (map snd ys)"
    by (simp add: settled_reopen assms(2) list_all_iff)
  from rerun_noop [OF _ this t(6)] assms(1,2) show ?thesis by (simp add: t)
qed

text \<open>
  C5, where the code departs from the claim. The sample crawl, a forum with one section,
  one thread, one user, a post with a sequence number and a post without one, is saved
  into an empty store, and saved again by a second pipeline opened on the same database.
  After the first run the forums table holds one row for the spider \<open>wiara\<close>; after the
  second it holds two, since \<open>_save_forum\<close> inserts without looking for the row. The
  sections, threads and users tables keep their one row and the numbered post is
  replaced in place; the post without a number is stored a second time.
\<close>

theorem rerun_duplicates_forum:
  "map (\<lambda>r. (f_id r, f_spider_name r)) (forums (run aff sample_crawl new_pipeline))
     = [(1, ''wiara'')]
   \<and> map (\<lambda>r. (f_id r, f_spider_name r))
       (forums (run aff sample_crawl (reopen (run aff sample_crawl new_pipeline))))
     = [(1, ''wiara''), (2, ''wiara'')]
   \<and> map (\<lambda>r. (p_id r, p_post_number r, p_content r)) (posts (run aff sample_crawl new_pipeline))
     = [(1, Some 1087395, Some ''Dzien dobry''), (2, None, Some ''Bez numeru'')]
   \<and> map (\<lambda>r. (p_id r, p_post_number r, p_content r))
       (posts (run aff sample_crawl (reopen (run aff sample_crawl new_pipeline))))
     = [(2, None, Some ''Bez numeru''), (3, Some 1087395, Some ''Dzien dobry''),
        (4, None, Some ''Bez numeru'')]
   \<and> map s_id (sections (run aff sample_crawl (reopen (run aff sample_crawl new_pipeline)))) = [1]
   \<and> map t_id (threads (run aff sample_crawl (reopen (run aff sample_crawl new_pipeline)))) = [1]
   \<and> map u_id (users (run aff sample_crawl (reopen (run aff sample_crawl new_pipeline)))) = [1]"
  by (simp add: sample_crawl_def sample_forum_def reopen_def eval_defs is_digit_char_def
      is_decimal_def decimal_value_def digit_val_def)

subsection \<open>The store keeps its uniqueness constraints\<close>

text \<open>
  Every store that a run of the pipeline produces from an empty database satisfies
  \<open>store_ok\<close>, so it holds at most one row for a URL or a username: the assumption
  that the theorems on sections and users make of the store.
\<close>

lemma col_values: "u \<in> set (concat (map (\<lambda>r. case col r of None \<Rightarrow> [] | Some u \<Rightarrow> [u]) rows))
    \<longleftrightarrow> list_ex (\<lambda>r. col r = Some u) rows"
  by (induction rows) (auto split: option.splits)

lemma unique_col_snoc:
  "unique_col col rows \<Longrightarrow> \<not> unique_conflict col (col row) rows \<Longrightarrow> unique_col col (rows @ [row])"
  by (cases "col row") (auto simp: unique_col_def unique_conflict_def col_values list_ex_iff)

lemma unique_col_count:
  "unique_col col rows \<Longrightarrow> length (filter (\<lambda>r. col r = Some u) rows) \<le> 1"
proof (induction rows)
  case Nil
  then show ?case by simp
next
  case (Cons r rows)
  then have u: "unique_col col rows" by (auto simp: unique_col_def)
  show ?case
  proof (cases "col r = Some u")
    case True
    with Cons.prems have "u \<notin> set (concat (map (\<lambda>r. case col r of None \<Rightarrow> [] | Some u \<Rightarrow> [u]) rows))"
      by (simp add: unique_col_def)
    then have "\<not> list_ex (\<lambda>r. col r = Some u) rows"
      unfolding col_values .
    then have "filter (\<lambda>r. col r = Some u) rows = []"
      by (auto simp: list_ex_iff filter_empty_conv)
    with True show ?thesis by simp
  next
    case False
    with Cons.IH [OF u] show ?thesis by simp
  qed
qed

lemma save_section_adds:
  "sections (final (save_section now i st)) = sections st
   \<or> (\<exists>row. sections (final (save_section now i st)) = sections st @ [row]
        \<and> \<not> unique_conflict s_url (s_url row) (sections st))"
  by (simp add: save_section_def final_def Let_def split: option.splits)

lemma save_user_adds:
  "users (final (save_user now i st)) = users st
   \<or> (\<exists>row. users (final (save_user now i st)) = users st @ [row]
        \<and> \<not> unique_conflict u_username (u_username row) (users st))"
  by (simp add: save_user_def final_def Let_def split: option.splits)

lemma resolve_section_adds:
  assumes "resolve_section now i st = (v, st1)"
  shows "sections st1 = sections st
   \<or> (\<exists>row. sections st1 = sections st @ [row]
        \<and> \<not> unique_conflict s_url (s_url row) (sections st))"
proof (cases "\<not> truthy (ti_section_id i) \<and> truthy_str (ti_section_url i)
              \<and> \<not> unique_conflict s_url (ti_section_url i) (sections st)")
  case True
  then obtain u where u: "ti_section_url i = Some u" "u \<noteq> []"
    by (auto simp: truthy_str_def split: option.splits)
  with True have nl: "\<not> list_ex (\<lambda>r. s_url r = Some u) (sections st)"
    by (simp add: unique_conflict_def)
  then have "find (\<lambda>r. s_url r = Some u) (sections st) = None"
    by (simp add: find_None_iff list_ex_iff)
  then have "\<exists>row. sections st1 = sections st @ [row] \<and> s_url row = Some u"
    using assms True u
    by (auto simp: resolve_section_def select_id_def Let_def split: if_splits)
  then show ?thesis using nl by (auto simp: unique_conflict_def)
next
  case False
  have "sections st1 = sections st"
  proof (cases "truthy (ti_section_id i)")
    case True
    then show ?thesis using assms
      by (auto simp: resolve_section_def split: pyval.splits option.splits)
  next
    case nt: False
    show ?thesis
    proof (cases "truthy_str (ti_section_url i)")
      case True
      then obtain u where u: "ti_section_url i = Some u" "u \<noteq> []"
        by (auto simp: truthy_str_def split: option.splits)
      with False nt True have "list_ex (\<lambda>r. s_url r = Some u) (sections st)"
        by (simp add: unique_conflict_def)
      from find_ex [OF this] obtain r0 where "find (\<lambda>r. s_url r = Some u) (sections st) = Some r0"
        by blast
      then show ?thesis using assms nt u
        by (auto simp: resolve_section_def select_id_def Let_def split: if_splits)
    next
      case False
      then show ?thesis using assms nt
        by (auto simp: resolve_section_def truthy_str_def split: option.splits)
    qed
  qed
  then show ?thesis by simp
qed

lemma save_thread_adds:
  "threads (final (save_thread aff now i st)) = threads st
   \<or> (\<exists>row. threads (final (save_thread aff now i st)) = threads st @ [row]
        \<and> \<not> unique_conflict t_url (t_url row) (threads st))"
proof -
  obtain v st1 where r: "resolve_section now i st = (v, st1)" by (cases "resolve_section now i st")
  from resolve_section_grows [OF r] show ?thesis
    by (simp add: save_thread_def r final_def Let_def split: option.splits)
qed

lemma process_item_store_ok:
  assumes "store_ok st"
  shows "store_ok (final (process_item aff now it st))"
proof (cases "connected st")
  case False
  then show ?thesis using assms by (simp add: process_item_def final_def)
next
  case True
  show ?thesis
  proof (cases it)
    case (Forum i)
    with save_forum_tables [of now i st] assms True show ?thesis
      by (simp add: process_item_def store_ok_def)
  next
    case (Section i)
    with save_section_adds [of now i st] save_section_frame [of now i st] assms True
    show ?thesis by (auto simp: process_item_def store_ok_def unique_col_snoc)
  next
    case (Thread i)
    obtain v st1 where r: "resolve_section now i st = (v, st1)"
      by (cases "resolve_section now i st")
    from save_thread_frame [OF r, of aff] True
    have f: "users (final (save_thread aff now i st)) = users st"
      "sections (final (save_thread aff now i st)) = sections st1" by simp_all
    from resolve_section_adds [OF r] assms have "unique_col s_url (sections st1)"
      by (auto simp: store_ok_def unique_col_snoc)
    moreover from save_thread_adds [of aff now i st] assms
    have "unique_col t_url (threads (final (save_thread aff now i st)))"
      by (auto simp: store_ok_def unique_col_snoc)
    ultimately show ?thesis using Thread True assms f
      by (simp add: process_item_def store_ok_def)
  next
    case (User i)
    with save_user_adds [of now i st] save_user_frame [of now i st] assms True
    show ?thesis by (auto simp: process_item_def store_ok_def unique_col_snoc)
  next
    case (Post i)
    with save_post_frame [of aff now i st] assms True show ?thesis
      by (simp add: process_item_def store_ok_def)
  next
    case Other
    then show ?thesis using assms True by (simp add: process_item_def final_def)
  qed
qed

lemma run_store_ok: "store_ok st \<Longrightarrow> store_ok (run aff xs st)"
proof (induction xs arbitrary: st)
  case Nil
  then show ?case by simp
next
  case (Cons x xs)
  obtain now it where x: "x = (now, it)" by (cases x)
  from Cons.prems have "store_ok (final (process_item aff now it st))"
    by (rule process_item_store_ok)
  then have "store_ok (run aff xs (final (process_item aff now it st)))" by (rule Cons.IH)
  then show ?case using x by simp
qed

lemma new_pipeline_store_ok: "store_ok new_pipeline"
  by (simp add: store_ok_def unique_col_def new_pipeline_def)

lemma reopen_store_ok: "store_ok (reopen st) = store_ok st"
  by (simp add: store_ok_def reopen_def)


section \<open>Properties of the identifier extractor\<close>

lemmas url_eval = urlparse_def urlsplit_def split_scheme_def splitparams_def uses_params_def
  is_unsafe_def is_c0_or_space_def is_ascii_alpha_def is_ascii_upper_def is_scheme_char_def
  is_decimal_def is_delimiter_def ascii_lower_def bracketed_host_def parse_qsl_def
  parse_field_def unquote_plus_def unquote_def qs_get_def sample_lib_def Let_def

lemma decimal_is_digit: "list_all is_decimal v \<Longrightarrow> list_all is_digit_char v"
  by (induction v) (auto simp: is_digit_char_def)

lemma scan_key_step:
  assumes "convertible pairs key"
  shows "scan_keys pairs (key # keys)
           = (case id_param pairs key of Some n \<Rightarrow> Some (Inr n) | None \<Rightarrow> scan_keys pairs keys)"
  using assms decimal_is_digit
  by (auto simp: convertible_def id_param_def py_isdigit_def py_int_def split: list.splits)

lemma trailing_digits_decimal: "list_all is_decimal (trailing_digits s)"
proof -
  have "list_all P (takeWhile P xs)" for P and xs :: string
    by (induction xs) auto
  then show ?thesis by (simp add: trailing_digits_def Let_def)
qed

lemma urlparse_empty:
  "urlparse lib [] = Inr \<lparr>url_scheme = [], url_netloc = [], url_path = [], url_params = [],
                            url_query = [], url_fragment = []\<rparr>"
  by (simp add: urlparse_def urlsplit_def split_scheme_def uses_params_def)

text \<open>
  Where \<open>isdigit\<close> holds of the first \<open>t\<close> value and \<open>int\<close> refuses it, for a
  superscript digit or for more than 4300 digits, the \<open>ValueError\<close> leaves the base
  method: the conversion of a parameter is outside the \<open>try\<close> that guards the
  conversion of the path's digits.
\<close>

lemma base_raises_on_refused_digits:
  assumes "urlparse lib u = Inr parsed" "u \<noteq> []"
      and "qs_get (parse_qsl lib (url_query parsed)) ''t'' = v # vs" "py_isdigit v"
      and "\<not> (list_all is_decimal v \<and> length v \<le> 4300)"
  shows "get_thread_id_from_url lib (Some u) = Inl ValueError"
  using assms by (auto simp: get_thread_id_from_url_def py_isdigit_def py_int_def)

text \<open>
  A thread parameter of more than 4300 decimal digits in an otherwise plain URL: the
  URL parses, the parameter is the number as written, and the base method raises.
\<close>

lemma decimal_partition_none:
  "list_all is_decimal d \<Longrightarrow> \<not> is_decimal c \<Longrightarrow> partition_at c d = None"
  by (induction d) auto

lemma decimal_split_whole:
  "list_all is_decimal d \<Longrightarrow> \<not> is_decimal c \<Longrightarrow> split_on c d = [d]"
  by (induction d) auto

lemma decimal_safe:
  "list_all is_decimal d \<Longrightarrow>
   filter (\<lambda>c. c \<noteq> CHR 0x09 \<and> c \<noteq> CHR 0x0D \<and> c \<noteq> CHR 0x0A) d = d"
  by (induction d) (auto simp: is_decimal_def)

lemma decimal_no_plus:
  "list_all is_decimal d \<Longrightarrow> map (\<lambda>c. if c = CHR ''+'' then CHR '' '' else c) d = d"
  by (induction d) (auto simp: is_decimal_def)

lemma decimal_not_mem: "list_all is_decimal d \<Longrightarrow> \<not> is_decimal c \<Longrightarrow> c \<notin> set d"
  by (auto simp: list_all_iff)

lemma long_number_parse:
  assumes "list_all is_decimal d"
  shows "urlparse sample_lib (''http://f/viewtopic.php?t='' @ d)
     = Inr \<lparr>url_scheme = ''http'', url_netloc = ''f'', url_path = ''/viewtopic.php'',
            url_params = [], url_query = ''t='' @ d, url_fragment = []\<rparr>"
  using assms
  by (simp add: urlparse_def urlsplit_def split_scheme_def uses_params_def is_unsafe_def
      is_c0_or_space_def is_ascii_alpha_def is_ascii_upper_def is_scheme_char_def is_delimiter_def
      ascii_lower_def Let_def decimal_partition_none decimal_safe is_decimal_def [of "CHR ''#''"])

lemma long_number_query:
  assumes "list_all is_decimal d" "d \<noteq> []"
  shows "qs_get (parse_qsl sample_lib (''t='' @ d)) ''t'' = [d]"
  using assms
  by (simp add: parse_qsl_def parse_field_def qs_get_def unquote_plus_def unquote_def sample_lib_def
      decimal_split_whole decimal_no_plus decimal_not_mem is_decimal_def [of "CHR ''&''"]
      is_decimal_def [of "CHR ''%''"])

lemma base_raises_on_long_number:
  assumes "list_all is_decimal d" "4300 < length d"
  shows "get_thread_id_from_url sample_lib (Some (''http://f/viewtopic.php?t='' @ d)) = Inl ValueError"
proof -
  from assms(2) have ne: "d \<noteq> []" by auto
  have "py_isdigit d" using assms(1) ne decimal_is_digit by (simp add: py_isdigit_def)
  moreover have "\<not> (list_all is_decimal d \<and> length d \<le> 4300)" using assms(2) by simp
  ultimately show ?thesis
    using base_raises_on_refused_digits [OF long_number_parse [OF assms(1)] _ _ , of d "[]"]
      long_number_query [OF assms(1) ne]
    by simp
qed

text \<open>
  C3, as the code has it. For a URL that \<open>urlparse\<close> accepts and whose first \<open>t\<close> and
  \<open>p\<close> values, where \<open>isdigit\<close> holds of them, are strings of at most 4300 decimal
  digits: \<open>BaseForumSpider._get_thread_id_from_url\<close> returns the number of the first
  \<open>t\<close> value when that is a string of digits, else the number of the first \<open>p\<close> value
  when that is one, else the number the path ends with when that has at most 4300
  digits, else none. \<open>WiaraSpider._get_thread_id_from_url\<close>, which overrides it,
  returns the first \<open>t\<close> value as a string, whatever it holds, and none otherwise.
\<close>

theorem thread_id_from_url_cases:
  assumes "urlparse lib u = Inr parsed"
      and "convertible (parse_qsl lib (url_query parsed)) ''t''"
      and "convertible (parse_qsl lib (url_query parsed)) ''p''"
  shows "get_thread_id_from_url lib (Some u)
           = Inr (case id_param (parse_qsl lib (url_query parsed)) ''t'' of
                    Some n \<Rightarrow> Some n
                  | None \<Rightarrow>
                      (case id_param (parse_qsl lib (url_query parsed)) ''p'' of
                         Some n \<Rightarrow> Some n
                       | None \<Rightarrow> path_number (url_path parsed)))
       \<and> wiara_get_thread_id_from_url lib u
           = (case qs_get (parse_qsl lib (url_query parsed)) ''t'' of
                [] \<Rightarrow> None
              | v # vs \<Rightarrow> if v \<noteq> [] then Some v else None)"
proof -
  let ?q = "parse_qsl lib (url_query parsed)"
  have scan: "scan_keys ?q [''t'', ''p'']
      = (case id_param ?q ''t'' of Some n \<Rightarrow> Some (Inr n)
         | None \<Rightarrow> (case id_param ?q ''p'' of Some n \<Rightarrow> Some (Inr n) | None \<Rightarrow> None))"
    by (subst scan_key_step [OF assms(2)], subst scan_key_step [OF assms(3)])
      (simp split: option.splits)
  have base: "get_thread_id_from_url lib (Some u)
      = (case scan_keys ?q [''t'', ''p''] of
           Some (Inl e) \<Rightarrow> Inl e | Some (Inr n) \<Rightarrow> Inr (Some n)
         | None \<Rightarrow> Inr (path_number (url_path parsed)))"
  proof (cases "u = []")
    case True
    with assms(1) have "parsed = \<lparr>url_scheme = [], url_netloc = [], url_path = [], url_params = [],
                            url_query = [], url_fragment = []\<rparr>"
      by (simp add: urlparse_empty)
    then show ?thesis using True
      by (simp add: get_thread_id_from_url_def parse_qsl_def parse_field_def qs_get_def
          path_number_def trailing_digits_def)
  next
    case False
    show ?thesis
    proof (cases "scan_keys ?q [''t'', ''p'']")
      case None
      then show ?thesis using False assms(1) trailing_digits_decimal [of "url_path parsed"]
        by (simp add: get_thread_id_from_url_def py_int_def path_number_def del: scan_keys.simps)
    next
      case (Some r)
      then show ?thesis using False assms(1)
        by (cases r) (simp_all add: get_thread_id_from_url_def del: scan_keys.simps)
    qed
  qed
  have "get_thread_id_from_url lib (Some u)
           = Inr (case id_param ?q ''t'' of Some n \<Rightarrow> Some n
                  | None \<Rightarrow> (case id_param ?q ''p'' of Some n \<Rightarrow> Some n
                       | None \<Rightarrow> path_number (url_path parsed)))"
    unfolding base scan by (simp split: option.splits)
  moreover have "wiara_get_thread_id_from_url lib u
           = (case qs_get ?q ''t'' of [] \<Rightarrow> None | v # vs \<Rightarrow> if v \<noteq> [] then Some v else None)"
    using assms(1) by (simp add: wiara_get_thread_id_from_url_def)
  ultimately show ?thesis by simp
qed

lemma sample_parse:
  "urlparse sample_lib ''http://f/viewtopic.php?p=1087395''
     = Inr \<lparr>url_scheme = ''http'', url_netloc = ''f'', url_path = ''/viewtopic.php'',
            url_params = [], url_query = ''p=1087395'', url_fragment = []\<rparr>"
  by (simp add: url_eval)

theorem thread_id_from_url_cases_witness:
  "urlparse sample_lib ''http://f/viewtopic.php?p=1087395''
     = Inr \<lparr>url_scheme = ''http'', url_netloc = ''f'', url_path = ''/viewtopic.php'',
            url_params = [], url_query = ''p=1087395'', url_fragment = []\<rparr>
   \<and> convertible (parse_qsl sample_lib ''p=1087395'') ''t''
   \<and> convertible (parse_qsl sample_lib ''p=1087395'') ''p''
   \<and> get_thread_id_from_url sample_lib (Some ''http://f/viewtopic.php?p=1087395'') = Inr (Some 1087395)
   \<and> wiara_get_thread_id_from_url sample_lib ''http://f/viewtopic.php?p=1087395'' = None"
proof -
  let ?parsed = "\<lparr>url_scheme = ''http'', url_netloc = ''f'', url_path = ''/viewtopic.php'',
            url_params = [], url_query = ''p=1087395'', url_fragment = []\<rparr>"
  have q: "parse_qsl sample_lib ''p=1087395'' = [(''p'', ''1087395'')]"
    by (simp add: url_eval)
  have a: "urlparse sample_lib ''http://f/viewtopic.php?p=1087395'' = Inr ?parsed"
    by (rule sample_parse)
  have b: "convertible (parse_qsl sample_lib (url_query ?parsed)) ''t''"
    "convertible (parse_qsl sample_lib (url_query ?parsed)) ''p''"
    by (simp_all add: q convertible_def qs_get_def is_decimal_def)
  have v: "id_param [(''p'', ''1087395'')] ''t'' = None"
    "id_param [(''p'', ''1087395'')] ''p'' = Some 1087395"
    by (simp_all add: id_param_def qs_get_def is_decimal_def decimal_value_def digit_val_def)
  from thread_id_from_url_cases [OF a b] a b show ?thesis by (simp add: q v qs_get_def)
qed

text \<open>
  The claim C3 as the specification words it fails: for a URL with a post-identifying
  parameter only, the override of the Wiara spider returns none, and for a thread
  parameter it returns a string, not an integer; and the base method raises on a URL
  with an unpaired bracket, whatever the library parameters are, on a thread parameter
  that is a superscript two, although a post parameter follows it, and on a thread
  parameter of 4301 digits.
\<close>

theorem thread_id_from_url_counterexample:
  "wiara_get_thread_id_from_url sample_lib ''http://f/viewtopic.php?p=1087395'' = None
   \<and> wiara_get_thread_id_from_url sample_lib ''http://f/viewtopic.php?t=42'' = Some ''42''
   \<and> get_thread_id_from_url sample_lib (Some ''http://['') = Inl ValueError
   \<and> get_thread_id_from_url sample_lib (Some (''http://f/viewtopic.php?t='' @ [CHR 0xB2] @ ''&p=7''))
       = Inl ValueError
   \<and> get_thread_id_from_url sample_lib
         (Some (''http://f/viewtopic.php?t='' @ replicate 4301 (CHR ''1''))) = Inl ValueError"
proof -
  have a: "wiara_get_thread_id_from_url sample_lib ''http://f/viewtopic.php?p=1087395'' = None
   \<and> wiara_get_thread_id_from_url sample_lib ''http://f/viewtopic.php?t=42'' = Some ''42''
   \<and> get_thread_id_from_url sample_lib (Some ''http://['') = Inl ValueError
   \<and> get_thread_id_from_url sample_lib (Some (''http://f/viewtopic.php?t='' @ [CHR 0xB2] @ ''&p=7''))
       = Inl ValueError"
    by (simp add: wiara_get_thread_id_from_url_def get_thread_id_from_url_def url_eval
        py_isdigit_def is_digit_char_def py_int_def)
  have b: "get_thread_id_from_url sample_lib
         (Some (''http://f/viewtopic.php?t='' @ replicate 4301 (CHR ''1''))) = Inl ValueError"
    by (rule base_raises_on_long_number) (simp_all add: list_all_iff is_decimal_def)
  from a b show ?thesis by blast
qed

section \<open>Properties of the pagination helpers\<close>

lemma unique_links_set: "set (unique_links seen xs) = set xs - set seen"
  by (induction xs arbitrary: seen) auto

lemma unique_links_distinct: "distinct (unique_links seen xs)"
  by (induction xs arbitrary: seen) (auto simp: unique_links_set)

lemma remdups_snoc: "remdups (ys @ [x]) = remdups (filter (\<lambda>y. y \<noteq> x) ys) @ [x]"
  by (induction ys) auto

lemma unique_links_first_seen:
  "unique_links seen xs = rev (remdups (rev (filter (\<lambda>x. x \<notin> set seen) xs)))"
proof (induction xs arbitrary: seen)
  case Nil
  then show ?case by simp
next
  case (Cons x xs)
  show ?case
  proof (cases "x \<in> set seen")
    case True
    then show ?thesis by (simp add: Cons.IH)
  next
    case False
    have "filter (\<lambda>y. y \<noteq> x) (rev (filter (\<lambda>x. x \<notin> set seen) xs))
            = rev (filter (\<lambda>y. y \<notin> set (x # seen)) xs)"
      by (simp add: rev_filter [symmetric] conj_commute)
    then show ?thesis using False by (simp add: Cons.IH remdups_snoc)
  qed
qed

lemma collect_links_offsets:
  "collect_links lib base view_type current_start hrefs = Inr links \<Longrightarrow>
   list_all (other_offset lib current_start) links"
proof (induction hrefs arbitrary: links)
  case Nil
  then show ?case by simp
next
  case (Cons h hs)
  then show ?case
    by (auto simp: other_offset_def split: sum.splits if_splits)
qed

lemma forum_pagination_links_sound:
  assumes "extract_forum_pagination_links lib resp view_type = Inr links"
      and "urlparse lib (resp_url resp) = Inr current"
  shows "distinct links
       \<and> list_all (other_offset lib (start_of lib (url_query current))) links"
proof -
  from assms obtain cand where c:
    "collect_links lib (resp_url resp) view_type (start_of lib (url_query current))
       (if hrefs_with [view_type, ''start=''] (resp_anchors resp) = []
        then hrefs_with [''start=''] (resp_anchors resp)
        else hrefs_with [view_type, ''start=''] (resp_anchors resp)) = Inr cand"
    "links = unique_links [] cand"
    by (auto simp: extract_forum_pagination_links_def Let_def split: sum.splits)
  from collect_links_offsets [OF c(1)] have "list_all (other_offset lib (start_of lib (url_query current))) cand" .
  then show ?thesis using c(2) by (auto simp: unique_links_distinct unique_links_set list_all_iff)
qed

text \<open>
  The links the section helper returns are the candidates that pass its filter, each
  kept where it occurs first.
\<close>

lemma forum_pagination_links_order:
  assumes "extract_forum_pagination_links lib resp view_type = Inr links"
      and "urlparse lib (resp_url resp) = Inr current"
  shows "\<exists>candidates.
           collect_links lib (resp_url resp) view_type (start_of lib (url_query current))
             (if hrefs_with [view_type, ''start=''] (resp_anchors resp) = []
              then hrefs_with [''start=''] (resp_anchors resp)
              else hrefs_with [view_type, ''start=''] (resp_anchors resp)) = Inr candidates
         \<and> links = rev (remdups (rev candidates))"
  using assms unique_links_first_seen [of "[]"]
  by (auto simp: extract_forum_pagination_links_def Let_def split: sum.splits)

text \<open>
  C4, where the code departs from the claim. A thread page at offset 15 whose
  pagination cells link to the page itself once and to the page at offset 30 twice:
  \<open>_extract_thread_pagination_links\<close> returns all three links, the page's own URL and
  the duplicate among them, while \<open>_extract_forum_pagination_links\<close> on the same page
  returns the one other page.
\<close>

theorem thread_pagination_keeps_self_and_duplicates:
  "extract_thread_pagination_links sample_lib sample_page
     = Inr [''http://f/viewtopic.php?t=42&start=15'', ''http://f/viewtopic.php?t=42&start=30'',
            ''http://f/viewtopic.php?t=42&start=30'']
   \<and> resp_url sample_page = ''http://f/viewtopic.php?t=42&start=15''
   \<and> extract_forum_pagination_links sample_lib sample_page ''viewtopic.php''
     = Inr [''http://f/viewtopic.php?t=42&start=30'']"
proof -
  have a: "extract_thread_pagination_links sample_lib sample_page
     = Inr [''http://f/viewtopic.php?t=42&start=15'', ''http://f/viewtopic.php?t=42&start=30'',
            ''http://f/viewtopic.php?t=42&start=30'']"
    by (simp add: extract_thread_pagination_links_def sample_page_def hrefs_with_def
        css_contains_def sample_lib_def)
  have b: "resp_url sample_page = ''http://f/viewtopic.php?t=42&start=15''"
    by (simp add: sample_page_def)
  have p: "urlparse sample_lib (''http://f/viewtopic.php?t=42&start='' @ n)
     = Inr \<lparr>url_scheme = ''http'', url_netloc = ''f'', url_path = ''/viewtopic.php'',
            url_params = [], url_query = ''t=42&start='' @ n, url_fragment = []\<rparr>"
    if "n = ''15'' \<or> n = ''30''" for n
    using that by (auto simp: url_eval)
  have q: "start_of sample_lib (''t=42&start='' @ n) = n" if "n = ''15'' \<or> n = ''30''" for n
    using that by (auto simp: start_of_def url_eval)
  have h: "hrefs_with [''viewtopic.php'', ''start=''] (resp_anchors sample_page)
     = [''http://f/viewtopic.php?t=42&start='' @ ''15'', ''http://f/viewtopic.php?t=42&start='' @ ''30'',
        ''http://f/viewtopic.php?t=42&start='' @ ''30'']"
    by (simp add: sample_page_def hrefs_with_def css_contains_def)
  have u: "urljoin sample_lib x y = Inr y" for x y by (simp add: sample_lib_def)
  have v: "py_in ''viewtopic.php'' ''/viewtopic.php''" by simp
  have c: "extract_forum_pagination_links sample_lib sample_page ''viewtopic.php''
     = Inr [''http://f/viewtopic.php?t=42&start=30'']"
    unfolding extract_forum_pagination_links_def h
    using p [of "''15''"] p [of "''30''"] q [of "''15''"] q [of "''30''"] v
    by (simp add: b u)
  show ?thesis using a b c by simp
qed

section \<open>Properties of the page parser\<close>

text \<open>
  C9. When \<open>_extract_post_data\<close> yields a post for a row with a body, the quotes were
  stripped from the body's markup without an exception, the post's content is what
  \<open>clean_post_content\<close> returns for the stripped markup and its URLs are what
  \<open>extract_urls_from_html\<close> returns for the stripped markup; and when the pipeline
  saves the post, the stored row holds that content and those URLs (as JSON).
\<close>

theorem post_content_from_stripped_markup:
  assumes "extract_post_data ut lib response_url thread_id row = Some item"
      and "postbody row = Some raw"
      and "save_post aff now item st = Done st'"
  shows "\<exists>stripped content urls.
           strip_quotes_from_html ut raw = Returns stripped
         \<and> clean_post_content ut stripped = Returns content
         \<and> extract_urls_from_html ut stripped response_url = Returns urls
         \<and> pi_content item = Some content \<and> pi_content_urls item = Some urls
         \<and> (\<exists>kept r. posts st' = kept @ [r] \<and> p_content r = Some content
                     \<and> p_content_urls r = Some (json_dumps urls))"
proof -
  from assms(1,2) obtain stripped content urls where p:
    "strip_quotes_from_html ut raw = Returns stripped"
    "clean_post_content ut stripped = Returns content"
    "extract_urls_from_html ut stripped response_url = Returns urls"
    "pi_content item = Some content" "pi_content_urls item = Some urls"
    by (auto simp: extract_post_data_def post_content_def split: if_splits option.splits call.splits)
  from assms(3) have "\<exists>kept r. posts st' = kept @ [r] \<and> p_content r = pi_content item
      \<and> p_content_urls r = map_option json_dumps (pi_content_urls item)"
    by (auto simp: save_post_def Let_def split: if_splits sum.splits)
  with p show ?thesis by simp
qed


theorem post_content_from_stripped_markup_witness:
  "\<exists>item st' r.
      extract_post_data sample_utils sample_lib ''http://f/viewtopic.php?t=42'' (PStr ''42'') sample_row
        = Some item
    \<and> postbody sample_row = Some ''Dzien dobry <div class=quote>cytat</div>''
    \<and> save_post TextV sample_clock item new_pipeline = Done st'
    \<and> posts st' = [r] \<and> p_content r = Some ''Dzien dobry'' \<and> p_content_urls r = Some ''[]''"
proof -
  let ?item = "\<lparr>pi_thread_id = PStr ''42'', pi_user_id = PNone, pi_username = Some ''Jan'',
     pi_post_number = Some 1087395, pi_content = Some ''Dzien dobry'', pi_content_urls = Some [],
     pi_post_date = Some ''dzisiaj, 10:15'',
     pi_url = Some ''http://f/viewtopic.php?p=1087395#1087395'',
     pi_created_at = None, pi_updated_at = None\<rparr>"
  have a: "extract_post_data sample_utils sample_lib ''http://f/viewtopic.php?t=42'' (PStr ''42'') sample_row
        = Some ?item"
    by (simp add: extract_post_data_def post_link_fields_def post_content_def post_date_field_def
        sample_row_def sample_utils_def sample_lib_def truthy_str_def py_strip_def is_space_def
        py_int_def is_decimal_def decimal_value_def digit_val_def)
  have b: "postbody sample_row = Some ''Dzien dobry <div class=quote>cytat</div>''"
    by (simp add: sample_row_def)
  have "\<exists>st'. save_post TextV sample_clock ?item new_pipeline = Done st' \<and> length (posts st') = 1"
    by (simp add: eval_defs is_digit_char_def is_decimal_def decimal_value_def digit_val_def)
  then obtain st' where c: "save_post TextV sample_clock ?item new_pipeline = Done st'"
    "length (posts st') = 1" by blast
  have d: "strip_quotes_from_html sample_utils ''Dzien dobry <div class=quote>cytat</div>''
             = Returns ''Dzien dobry ''"
    "clean_post_content sample_utils ''Dzien dobry '' = Returns ''Dzien dobry''"
    "extract_urls_from_html sample_utils x y = Returns []" for x y
    by (simp_all add: sample_utils_def py_strip_def is_space_def)
  from post_content_from_stripped_markup [OF a b c(1)] obtain kept r where
    "posts st' = kept @ [r]" "p_content r = Some ''Dzien dobry''"
    "p_content_urls r = Some (json_dumps [])"
    by (auto simp: d)
  with c(2) have "posts st' = [r]" "p_content r = Some ''Dzien dobry''"
    "p_content_urls r = Some ''[]''" by (simp_all add: json_dumps_def)
  with a b c(1) show ?thesis by blast
qed

end
